theory Spec2Isabelle
  imports Complex_Main
begin

section \<open>Numbers, errors and canvas commands\<close>

text \<open>
  The program is one script, \<^verbatim>\<open>src/script5.js\<close>: five entity classes (Atom, Photon,
  Snake, BlackHole, Portal), five global arrays holding the live entities, and a driver
  (\<^verbatim>\<open>init\<close>, \<^verbatim>\<open>animate\<close>, the click and resize handlers).

  JavaScript numbers are modelled as reals: no rounding, no NaN and no infinities. Counters
  that the script only ever moves by whole steps (\<^verbatim>\<open>life\<close>, \<^verbatim>\<open>state\<close>) are naturals and
  \<^verbatim>\<open>snakeLength\<close> is an integer. Reading a property of \<^verbatim>\<open>undefined\<close> or \<^verbatim>\<open>null\<close> throws a
  TypeError in JavaScript; every such read is a branch returning \<open>Inl TypeError\<close>.
\<close>

datatype error = TypeError

record point =
  px :: real
  py :: real

definition TWO_PI :: real where
  "TWO_PI = 2 * pi"

definition hypot :: "real \<Rightarrow> real \<Rightarrow> real" where
  "hypot dx dy = sqrt (dx * dx + dy * dy)"

definition atan2 :: "real \<Rightarrow> real \<Rightarrow> real" where
  "atan2 dy dx =
     (if 0 < dx then arctan (dy / dx)
      else if dx < 0 \<and> 0 \<le> dy then arctan (dy / dx) + pi
      else if dx < 0 then arctan (dy / dx) - pi
      else if 0 < dy then pi / 2
      else if dy < 0 then - (pi / 2)
      else 0)"

text \<open>
  The remainder operator \<^verbatim>\<open>a % b\<close>: the quotient is truncated towards zero. For \<open>b = 0\<close>
  JavaScript yields NaN, which the reals do not have; the value of \<open>js_rem a 0\<close> stands for
  nothing in the script, and no statement below depends on it.
\<close>

definition js_rem :: "real \<Rightarrow> real \<Rightarrow> real" where
  "js_rem a b =
     (let q = a / b;
          n = (if q < 0 then \<lceil>q\<rceil> else \<lfloor>q\<rfloor>)
      in a - b * of_int n)"

definition NUM_ATOMS :: nat where "NUM_ATOMS = 75"
definition NUM_SNAKES :: nat where "NUM_SNAKES = 5"
definition NUM_PORTALS :: nat where "NUM_PORTALS = 3"
definition SNAKE_LENGTH :: int where "SNAKE_LENGTH = 40"
definition SNAKE_SIZE :: real where "SNAKE_SIZE = 6"
definition SPEED :: real where "SPEED = 2"
definition PHOTON_SPEED :: real where "PHOTON_SPEED = 4"
definition DISAPPEAR_TIME :: real where "DISAPPEAR_TIME = 1000"
definition GRAVITY :: real where "GRAVITY = 0.05"

text \<open>
  What a \<^verbatim>\<open>draw\<close> method shows is the sequence of calls it makes on the 2D context. The
  colour strings built from a hue are kept as terms: \<open>Hsl h\<close> is \<^verbatim>\<open>hsl(h, 100%, 70%)\<close> and
  \<open>Hsla h a\<close> is \<^verbatim>\<open>hsla(h, 100%, 70%, a)\<close>.
\<close>

datatype style =
    Hsl real
  | Hsla real real
  | RadialGradient real real real real real real "(real \<times> string) list"

datatype cmd =
    Save
  | Restore
  | BeginPath
  | Arc real real real real real
  | MoveTo real real
  | LineTo real real
  | Fill
  | Stroke
  | FillStyle style
  | StrokeStyle style
  | ShadowColor style
  | ShadowBlur real
  | LineWidth real
  | LineCap string

section \<open>The entities and the global arrays\<close>

text \<open>
  The \<^verbatim>\<open>type\<close> of an atom is drawn by its constructor from the two strings
  \<^verbatim>\<open>'normal'\<close> and \<^verbatim>\<open>'special'\<close> and never assigned again.
\<close>

datatype atom_type = Normal | Special

record atom =
  a_position :: point
  a_state :: nat
  a_startTime :: real
  a_hue :: real
  a_radius :: real
  a_type :: atom_type

text \<open>
  Photon objects are compared by identity (\<^verbatim>\<open>photons.indexOf(this)\<close>); \<open>p_id\<close> is that
  identity, the allocation number of the object.
\<close>

record photon =
  p_id :: nat
  p_position :: point
  p_velocity :: point
  p_hue :: real
  p_life :: nat
  p_maxLife :: nat
  p_size :: real
  p_type :: atom_type

text \<open>
  Atoms are never removed from \<^verbatim>\<open>atoms\<close> nor reordered, so the reference \<^verbatim>\<open>target\<close> is an
  index into that array; \<open>None\<close> is \<^verbatim>\<open>null\<close>.
\<close>

record snake =
  s_hue :: real
  s_color :: style
  s_positions :: "point list"
  s_snakeLength :: int
  s_angle :: real
  s_target :: "nat option"

record blackHole =
  b_position :: point
  b_radius :: real
  b_maxRadius :: real
  b_growthRate :: real

text \<open>The reference \<^verbatim>\<open>partner\<close> is an index into \<^verbatim>\<open>portals\<close>; \<open>None\<close> is \<^verbatim>\<open>null\<close>.\<close>

record portal =
  q_position :: point
  q_radius :: real
  q_partner :: "nat option"

text \<open>
  The closure's variables. \<^verbatim>\<open>Math.random\<close> and \<^verbatim>\<open>performance.now\<close> are the host's: the
  \<open>n\<close>-th call of each returns \<open>rnd n\<close> and \<open>clock n\<close>.
\<close>

record world =
  width :: real
  height :: real
  atoms :: "atom list"
  snakes :: "snake list"
  photons :: "photon list"
  blackHoles :: "blackHole list"
  portals :: "portal list"
  next_id :: nat
  rnd :: "nat \<Rightarrow> real"
  rnd_calls :: nat
  clock :: "nat \<Rightarrow> real"
  clock_calls :: nat

definition random :: "world \<Rightarrow> real \<times> world" where
  "random w = (rnd w (rnd_calls w), w\<lparr>rnd_calls := rnd_calls w + 1\<rparr>)"

definition performance_now :: "world \<Rightarrow> real \<times> world" where
  "performance_now w = (clock w (clock_calls w), w\<lparr>clock_calls := clock_calls w + 1\<rparr>)"

text \<open>
  \<^verbatim>\<open>Array.prototype.forEach\<close> over an array that the callback leaves alone: the elements
  in order, an exception ending the loop.
\<close>

fun forEach :: "('a \<Rightarrow> 's \<Rightarrow> error + 's) \<Rightarrow> 'a list \<Rightarrow> 's \<Rightarrow> error + 's" where
  "forEach f [] s = Inr s"
| "forEach f (v # vs) s = (case f v s of Inl e \<Rightarrow> Inl e | Inr s' \<Rightarrow> forEach f vs s')"

section \<open>Photon\<close>

definition new_Photon :: "real \<Rightarrow> real \<Rightarrow> real \<Rightarrow> atom_type \<Rightarrow> world \<Rightarrow> photon \<times> world" where
  "new_Photon x0 y0 hue ty w =
     (case random w of (r, w1) \<Rightarrow>
        let angle = r * TWO_PI;
            speed = (if ty = Normal then PHOTON_SPEED else PHOTON_SPEED * 1.5)
        in (\<lparr>p_id = next_id w1,
             p_position = \<lparr>px = x0, py = y0\<rparr>,
             p_velocity = \<lparr>px = cos angle * speed, py = sin angle * speed\<rparr>,
             p_hue = hue,
             p_life = 0,
             p_maxLife = 100,
             p_size = (if ty = Normal then 3 else 5),
             p_type = ty\<rparr>,
            w1\<lparr>next_id := next_id w1 + 1\<rparr>))"

text \<open>
  One round of the portal loop of \<^verbatim>\<open>Photon.update\<close>: a photon closer to the portal than
  its radius is moved to the partner, with a random offset.
\<close>

definition Photon_portal ::
  "portal list \<Rightarrow> portal \<Rightarrow> photon \<times> world \<Rightarrow> error + photon \<times> world" where
  "Photon_portal ps portal pw =
     (case pw of (p, w) \<Rightarrow>
        let dx = px (p_position p) - px (q_position portal);
            dy = py (p_position p) - py (q_position portal);
            dist = hypot dx dy
        in if dist < q_radius portal then
             (case q_partner portal of
                None \<Rightarrow> Inl TypeError
              | Some j \<Rightarrow>
                  if j < length ps then
                    (case random w of (r1, w1) \<Rightarrow>
                     case random w1 of (r2, w2) \<Rightarrow>
                       Inr (p\<lparr>p_position :=
                                \<lparr>px = px (q_position (ps ! j)) + (r1 - 0.5) * 10,
                                 py = py (q_position (ps ! j)) + (r2 - 0.5) * 10\<rparr>\<rparr>, w2))
                  else Inl TypeError)
           else Inr (p, w))"

text \<open>\<^verbatim>\<open>photons.indexOf(this)\<close>: the first index holding this object, or \<open>-1\<close>.\<close>

fun indexOf :: "photon list \<Rightarrow> nat \<Rightarrow> int" where
  "indexOf [] i = - 1"
| "indexOf (q # qs) i =
     (if p_id q = i then 0 else (let k = indexOf qs i in if k < 0 then - 1 else k + 1))"

text \<open>
  \<^verbatim>\<open>arr.splice(start, 1)\<close>: a negative start counts from the end, and the start is
  clamped to the array.
\<close>

definition splice1 :: "'a list \<Rightarrow> int \<Rightarrow> 'a list" where
  "splice1 xs start =
     (let len = int (length xs);
          k = nat (if start < 0 then max (len + start) 0 else min start len)
      in take k xs @ drop (k + 1) xs)"

text \<open>
  The object \<open>p\<close> has been mutated; the array holds a reference to it, so the array shows
  the new fields wherever it holds this object.
\<close>

definition store_photon :: "photon \<Rightarrow> photon list \<Rightarrow> photon list" where
  "store_photon p qs = map (\<lambda>q. if p_id q = p_id p then p else q) qs"

text \<open>The test that ends \<^verbatim>\<open>Photon.update\<close>: the life is over, or the photon is off the canvas.\<close>

definition removal_due :: "photon \<Rightarrow> world \<Rightarrow> bool" where
  "removal_due p w \<longleftrightarrow>
     p_life p > p_maxLife p \<or>
     px (p_position p) < 0 \<or> px (p_position p) > width w \<or>
     py (p_position p) < 0 \<or> py (p_position p) > height w"

definition Photon_update :: "photon \<Rightarrow> world \<Rightarrow> error + photon \<times> world" where
  "Photon_update this w =
     (case forEach (Photon_portal (portals w)) (portals w) (this, w) of
        Inl e \<Rightarrow> Inl e
      | Inr (p1, w1) \<Rightarrow>
          let p2 = p1\<lparr>p_position := \<lparr>px = px (p_position p1) + px (p_velocity p1),
                                      py = py (p_position p1) + py (p_velocity p1)\<rparr>\<rparr>;
              p3 = p2\<lparr>p_velocity := \<lparr>px = px (p_velocity p2),
                                      py = py (p_velocity p2) + GRAVITY\<rparr>\<rparr>;
              p4 = p3\<lparr>p_life := p_life p3 + 1\<rparr>;
              w2 = w1\<lparr>photons := store_photon p4 (photons w1)\<rparr>
          in if removal_due p4 w2
             then Inr (p4, w2\<lparr>photons := splice1 (photons w2) (indexOf (photons w2) (p_id p4))\<rparr>)
             else Inr (p4, w2))"

definition Photon_draw :: "photon \<Rightarrow> cmd list" where
  "Photon_draw p =
     [BeginPath,
      Arc (px (p_position p)) (py (p_position p)) (p_size p) 0 TWO_PI,
      FillStyle (Hsl (p_hue p)),
      ShadowColor (Hsl (p_hue p)),
      ShadowBlur 15,
      Fill,
      ShadowBlur 0]"

section \<open>BlackHole\<close>

definition new_BlackHole :: "real \<Rightarrow> real \<Rightarrow> blackHole" where
  "new_BlackHole x0 y0 =
     \<lparr>b_position = \<lparr>px = x0, py = y0\<rparr>, b_radius = 0, b_maxRadius = 50, b_growthRate = 0.5\<rparr>"

definition attract :: "blackHole \<Rightarrow> photon \<Rightarrow> photon" where
  "attract hole p =
     (let dx = px (b_position hole) - px (p_position p);
          dy = py (b_position hole) - py (p_position p);
          dist = hypot dx dy
      in if dist < b_radius hole then
           (let angle = atan2 dy dx
            in p\<lparr>p_velocity := \<lparr>px = px (p_velocity p) + cos angle * 0.5,
                                 py = py (p_velocity p) + sin angle * 0.5\<rparr>\<rparr>)
         else p)"

definition BlackHole_update :: "blackHole \<Rightarrow> world \<Rightarrow> blackHole \<times> world" where
  "BlackHole_update this w =
     (let h = (if b_radius this < b_maxRadius this
               then this\<lparr>b_radius := b_radius this + b_growthRate this\<rparr>
               else this)
      in (h, w\<lparr>photons := map (attract h) (photons w)\<rparr>))"

definition BlackHole_draw :: "blackHole \<Rightarrow> cmd list" where
  "BlackHole_draw h =
     [Save,
      FillStyle (RadialGradient (px (b_position h)) (py (b_position h)) 0
                   (px (b_position h)) (py (b_position h)) (b_radius h)
                   [(0, ''rgba(0, 0, 0, 1)''), (1, ''rgba(0, 0, 0, 0)'')]),
      BeginPath,
      Arc (px (b_position h)) (py (b_position h)) (b_radius h) 0 TWO_PI,
      Fill,
      Restore]"

section \<open>Atom\<close>

definition new_Atom :: "real \<Rightarrow> real \<Rightarrow> world \<Rightarrow> atom \<times> world" where
  "new_Atom x0 y0 w =
     (case random w of (r1, w1) \<Rightarrow>
      case random w1 of (r2, w2) \<Rightarrow>
        (\<lparr>a_position = \<lparr>px = x0, py = y0\<rparr>,
          a_state = 0,
          a_startTime = 0,
          a_hue = 270 + r1 * 60,
          a_radius = 10,
          a_type = (if r2 < 0.5 then Normal else Special)\<rparr>, w2))"

primrec push_photons :: "nat \<Rightarrow> atom \<Rightarrow> world \<Rightarrow> world" where
  "push_photons 0 a w = w"
| "push_photons (Suc n) a w =
     (case new_Photon (px (a_position a)) (py (a_position a)) (a_hue a) (a_type a) w of
        (p, w1) \<Rightarrow> push_photons n a (w1\<lparr>photons := photons w1 @ [p]\<rparr>))"

definition Atom_disintegrate :: "real \<Rightarrow> atom \<Rightarrow> world \<Rightarrow> atom \<times> world" where
  "Atom_disintegrate t this w =
     (let a = this\<lparr>a_startTime := t, a_state := 1\<rparr>;
          photonCount = (if a_type a = Normal then 5 else 15);
          w1 = push_photons photonCount a w;
          w2 = (if a_type a = Special
                then w1\<lparr>blackHoles := blackHoles w1 @
                          [new_BlackHole (px (a_position a)) (py (a_position a))]\<rparr>
                else w1)
      in (a, w2))"

definition Atom_draw :: "real \<Rightarrow> atom \<Rightarrow> cmd list \<times> atom" where
  "Atom_draw t this =
     (if a_state this = 0 then
        ([BeginPath,
          Arc (px (a_position this)) (py (a_position this)) (a_radius this) 0 TWO_PI,
          FillStyle (Hsl (a_hue this)),
          ShadowColor (Hsl (a_hue this)),
          ShadowBlur 20,
          Fill,
          ShadowBlur 0], this)
      else if a_state this = 1 then
        (let dt = t - a_startTime this;
             alpha = dt / DISAPPEAR_TIME
         in if alpha > 1 then ([], this\<lparr>a_state := 2\<rparr>)
            else
              ([BeginPath,
                Arc (px (a_position this)) (py (a_position this))
                    (a_radius this * (1 - alpha)) 0 TWO_PI,
                FillStyle (Hsla (a_hue this) (1 - alpha)),
                ShadowColor (Hsla (a_hue this) (1 - alpha)),
                ShadowBlur (20 * (1 - alpha)),
                Fill,
                ShadowBlur 0], this))
      else ([], this))"

section \<open>Portal\<close>

definition new_Portal :: "real \<Rightarrow> real \<Rightarrow> portal" where
  "new_Portal x0 y0 = \<lparr>q_position = \<lparr>px = x0, py = y0\<rparr>, q_radius = 20, q_partner = None\<rparr>"

definition Portal_draw :: "portal \<Rightarrow> cmd list" where
  "Portal_draw q =
     [Save,
      BeginPath,
      Arc (px (q_position q)) (py (q_position q)) (q_radius q) 0 TWO_PI,
      StrokeStyle (Hsl 300),
      LineWidth 5,
      ShadowColor (Hsl 300),
      ShadowBlur 15,
      Stroke,
      Restore]"

section \<open>Snake\<close>

definition new_Snake :: "world \<Rightarrow> snake \<times> world" where
  "new_Snake w =
     (case random w of (r1, w1) \<Rightarrow>
      case random w1 of (r2, w2) \<Rightarrow>
      case random w2 of (r3, w3) \<Rightarrow>
      case random w3 of (r4, w4) \<Rightarrow>
        let hue = 180 + r1 * 60;
            startX = r2 * width w;
            startY = r3 * height w
        in (\<lparr>s_hue = hue,
             s_color = Hsl hue,
             s_positions = replicate (nat SNAKE_LENGTH) \<lparr>px = startX, py = startY\<rparr>,
             s_snakeLength = SNAKE_LENGTH,
             s_angle = r4 * TWO_PI,
             s_target = None\<rparr>, w4))"

text \<open>
  The loop of \<^verbatim>\<open>grow\<close>: each round reads the last position and pushes a copy of it. With
  no position to read, \<^verbatim>\<open>tail\<close> is \<^verbatim>\<open>undefined\<close> and \<^verbatim>\<open>tail.x\<close> throws.
\<close>

primrec grow_loop :: "nat \<Rightarrow> point list \<Rightarrow> error + point list" where
  "grow_loop 0 ps = Inr ps"
| "grow_loop (Suc n) ps =
     (if ps = [] then Inl TypeError
      else grow_loop n (ps @ [\<lparr>px = px (last ps), py = py (last ps)\<rparr>]))"

definition Snake_grow :: "atom_type \<Rightarrow> snake \<Rightarrow> error + snake" where
  "Snake_grow ty this =
     (let lengthToAdd = (if ty = Normal then 5 else 15)
      in case grow_loop lengthToAdd (s_positions this) of
           Inl e \<Rightarrow> Inl e
         | Inr ps \<Rightarrow> Inr (this\<lparr>s_positions := ps,
                               s_snakeLength := s_snakeLength this + int lengthToAdd\<rparr>))"

primrec shrink_loop :: "nat \<Rightarrow> point list \<Rightarrow> point list" where
  "shrink_loop 0 ps = ps"
| "shrink_loop (Suc n) ps = shrink_loop n (if length ps > 0 then butlast ps else ps)"

definition Snake_shrink :: "snake \<Rightarrow> snake" where
  "Snake_shrink this =
     this\<lparr>s_positions := shrink_loop 10 (s_positions this),
          s_snakeLength := max 10 (s_snakeLength this - 10)\<rparr>"

text \<open>
  The search for the nearest alive atom; \<open>minDist = None\<close> is \<^verbatim>\<open>Infinity\<close>, and \<open>k\<close> is
  the index of the atom the loop has reached.
\<close>

fun seek :: "point \<Rightarrow> atom list \<Rightarrow> nat \<Rightarrow> real option \<Rightarrow> nat option \<Rightarrow> nat option" where
  "seek head [] k minDist target = target"
| "seek head (a # as) k minDist target =
     (if a_state a = 0 then
        (let dist = hypot (px head - px (a_position a)) (py head - py (a_position a))
         in if (case minDist of None \<Rightarrow> True | Some m \<Rightarrow> dist < m)
            then seek head as (k + 1) (Some dist) (Some k)
            else seek head as (k + 1) minDist target)
      else seek head as (k + 1) minDist target)"

text \<open>The test \<^verbatim>\<open>this.target && this.target.state === 0\<close>.\<close>

definition target_alive :: "nat option \<Rightarrow> atom list \<Rightarrow> bool" where
  "target_alive target as =
     (case target of None \<Rightarrow> False | Some i \<Rightarrow> i < length as \<and> a_state (as ! i) = 0)"

text \<open>
  \<^verbatim>\<open>forEach\<close> over an array that the callback may change: the length is read once, and
  each index is visited only if the array still has it, with the element found there at
  that moment.
\<close>

definition forEach_in ::
  "('s \<Rightarrow> 'a list) \<Rightarrow> ('a \<Rightarrow> nat \<Rightarrow> 's \<Rightarrow> error + 's) \<Rightarrow> 's \<Rightarrow> error + 's" where
  "forEach_in arr f s =
     forEach (\<lambda>k s'. if k < length (arr s') then f (arr s' ! k) k s' else Inr s')
       [0..<length (arr s)] s"

text \<open>The atom loop of \<^verbatim>\<open>Snake.update\<close>: an alive atom within eating distance is eaten.\<close>

definition eat :: "point \<Rightarrow> atom \<Rightarrow> nat \<Rightarrow> snake \<times> world \<Rightarrow> error + snake \<times> world" where
  "eat newHead atom k sw =
     (case sw of (s, w) \<Rightarrow>
        if a_state atom = 0 then
          (let dist = hypot (px newHead - px (a_position atom)) (py newHead - py (a_position atom))
           in if dist < a_radius atom + SNAKE_SIZE / 2 then
                (case performance_now w of (t, w1) \<Rightarrow>
                 case Atom_disintegrate t atom w1 of (atom', w2) \<Rightarrow>
                   (case Snake_grow (a_type atom') s of
                      Inl e \<Rightarrow> Inl e
                    | Inr s' \<Rightarrow> Inr (s'\<lparr>s_target := None\<rparr>,
                                      w2\<lparr>atoms := (atoms w2)[k := atom']\<rparr>)))
              else Inr (s, w))
        else Inr (s, w))"

definition hit_hole :: "point \<Rightarrow> blackHole \<Rightarrow> snake \<Rightarrow> error + snake" where
  "hit_hole newHead hole s =
     (let dist = hypot (px newHead - px (b_position hole)) (py newHead - py (b_position hole))
      in if dist < b_radius hole + SNAKE_SIZE / 2 then Inr (Snake_shrink s) else Inr s)"

definition Snake_portal ::
  "portal list \<Rightarrow> portal \<Rightarrow> point \<times> world \<Rightarrow> error + point \<times> world" where
  "Snake_portal ps portal hw =
     (case hw of (newHead, w) \<Rightarrow>
        let dist = hypot (px newHead - px (q_position portal)) (py newHead - py (q_position portal))
        in if dist < q_radius portal + SNAKE_SIZE / 2 then
             (case random w of (r1, w1) \<Rightarrow>
              case random w1 of (r2, w2) \<Rightarrow>
                let offsetX = (r1 - 0.5) * 10;
                    offsetY = (r2 - 0.5) * 10
                in (case q_partner portal of
                      None \<Rightarrow> Inl TypeError
                    | Some j \<Rightarrow>
                        if j < length ps then
                          Inr (\<lparr>px = px (q_position (ps ! j)) + offsetX,
                                py = py (q_position (ps ! j)) + offsetY\<rparr>, w2)
                        else Inl TypeError))
           else Inr (newHead, w))"

text \<open>
  The first part of \<^verbatim>\<open>Snake.update\<close>: with no target, or one that is no longer alive, the
  nearest alive atom becomes the target; then the angle turns towards an alive target, or
  changes by a random amount when there is none.
\<close>

definition Snake_steer :: "snake \<Rightarrow> point \<Rightarrow> world \<Rightarrow> snake \<times> world" where
  "Snake_steer this head w =
     (let s1 = (if \<not> target_alive (s_target this) (atoms w)
                then this\<lparr>s_target := seek head (atoms w) 0 None (s_target this)\<rparr>
                else this)
      in if target_alive (s_target s1) (atoms w) then
           (let tp = a_position (atoms w ! the (s_target s1));
                dx = px tp - px head;
                dy = py tp - py head;
                angleToTarget = atan2 dy dx;
                angleDifference = angleToTarget - s_angle s1
            in (s1\<lparr>s_angle := s_angle s1 +
                     atan2 (sin angleDifference) (cos angleDifference) * 0.05\<rparr>, w))
         else
           (case random w of (r, w') \<Rightarrow>
              (s1\<lparr>s_angle := s_angle s1 + (r - 0.5) * 0.2\<rparr>, w')))"

text \<open>The new head: one step of length \<^verbatim>\<open>SPEED\<close> along the angle, wrapped around the canvas.\<close>

definition Snake_newHead :: "snake \<Rightarrow> point \<Rightarrow> world \<Rightarrow> point" where
  "Snake_newHead this head w =
     (let newHead = \<lparr>px = px head + cos (s_angle this) * SPEED,
                     py = py head + sin (s_angle this) * SPEED\<rparr>
      in \<lparr>px = js_rem (px newHead + width w) (width w),
          py = js_rem (py newHead + height w) (height w)\<rparr>)"

text \<open>The last part: \<^verbatim>\<open>unshift\<close> the new head, and \<^verbatim>\<open>pop\<close> once if the snake is too long.\<close>

definition Snake_unshift :: "point \<Rightarrow> snake \<Rightarrow> snake" where
  "Snake_unshift newHead this =
     (let ps = newHead # s_positions this
      in this\<lparr>s_positions := (if int (length ps) > s_snakeLength this then butlast ps else ps)\<rparr>)"

text \<open>
  \<^verbatim>\<open>Snake.update\<close>. The head is \<^verbatim>\<open>positions[0]\<close>; with no position it is \<^verbatim>\<open>undefined\<close>, and
  the computation of the new head throws on \<^verbatim>\<open>head.x\<close>.
\<close>

definition Snake_update :: "snake \<Rightarrow> world \<Rightarrow> error + snake \<times> world" where
  "Snake_update this w =
     (case s_positions this of
        [] \<Rightarrow> Inl TypeError
      | head # _ \<Rightarrow>
          (case Snake_steer this head w of (s2, w2) \<Rightarrow>
             (case forEach_in (\<lambda>sw. atoms (snd sw)) (eat (Snake_newHead s2 head w2)) (s2, w2) of
                Inl e \<Rightarrow> Inl e
              | Inr (s3, w3) \<Rightarrow>
                  (case forEach (hit_hole (Snake_newHead s2 head w2)) (blackHoles w3) s3 of
                     Inl e \<Rightarrow> Inl e
                   | Inr s4 \<Rightarrow>
                       (case forEach (Snake_portal (portals w3)) (portals w3)
                               (Snake_newHead s2 head w2, w3) of
                          Inl e \<Rightarrow> Inl e
                        | Inr (newHead, w4) \<Rightarrow> Inr (Snake_unshift newHead s4, w4))))))"

definition Snake_draw :: "snake \<Rightarrow> cmd list" where
  "Snake_draw this =
     [Save,
      LineWidth SNAKE_SIZE,
      LineCap ''round'',
      StrokeStyle (s_color this),
      ShadowColor (s_color this),
      ShadowBlur 15,
      BeginPath] @
     (case s_positions this of
        [] \<Rightarrow> []
      | p # ps \<Rightarrow> MoveTo (px p) (py p) # map (\<lambda>q. LineTo (px q) (py q)) ps) @
     [Stroke, Restore]"

section \<open>The driver\<close>

definition resizeCanvas :: "real \<Rightarrow> real \<Rightarrow> world \<Rightarrow> world" where
  "resizeCanvas innerWidth innerHeight w = w\<lparr>width := innerWidth, height := innerHeight\<rparr>"

primrec create_atoms :: "nat \<Rightarrow> world \<Rightarrow> world" where
  "create_atoms 0 w = w"
| "create_atoms (Suc n) w =
     (case random w of (r1, w1) \<Rightarrow>
      case random w1 of (r2, w2) \<Rightarrow>
      case new_Atom (r1 * width w2) (r2 * height w2) w2 of (a, w3) \<Rightarrow>
        create_atoms n (w3\<lparr>atoms := atoms w3 @ [a]\<rparr>))"

primrec create_snakes :: "nat \<Rightarrow> world \<Rightarrow> world" where
  "create_snakes 0 w = w"
| "create_snakes (Suc n) w =
     (case new_Snake w of (s, w1) \<Rightarrow> create_snakes n (w1\<lparr>snakes := snakes w1 @ [s]\<rparr>))"

primrec create_portals :: "nat \<Rightarrow> world \<Rightarrow> world" where
  "create_portals 0 w = w"
| "create_portals (Suc n) w =
     (case random w of (r1, w1) \<Rightarrow>
      case random w1 of (r2, w2) \<Rightarrow>
        create_portals n
          (w2\<lparr>portals := portals w2 @ [new_Portal (r1 * width w2) (r2 * height w2)]\<rparr>))"

text \<open>
  The loop \<^verbatim>\<open>portals[i].partner = portals[(i + 1) % portals.length]\<close>, counting \<open>i\<close>
  up from its first argument.
\<close>

function assign_partners :: "nat \<Rightarrow> portal list \<Rightarrow> portal list" where
  "assign_partners i ps =
     (if i < length ps
      then assign_partners (i + 1) (ps[i := (ps ! i)\<lparr>q_partner := Some ((i + 1) mod length ps)\<rparr>])
      else ps)"
  by pat_completeness auto
termination
  by (relation "measure (\<lambda>(i, ps). length ps - i)") auto

text \<open>
  One frame. The clearing of the canvas and the background grid only issue drawing calls
  and touch no entity; the frame modelled here is the pass over the five arrays, with the
  drawing calls of the entities in the order they are made.
\<close>

definition frame_hole :: "blackHole \<Rightarrow> nat \<Rightarrow> cmd list \<times> world \<Rightarrow> error + cmd list \<times> world" where
  "frame_hole hole k cw =
     (case cw of (out, w) \<Rightarrow>
        case BlackHole_update hole w of (h, w1) \<Rightarrow>
          Inr (out @ BlackHole_draw h, w1\<lparr>blackHoles := (blackHoles w1)[k := h]\<rparr>))"

definition frame_atom ::
  "real \<Rightarrow> atom \<Rightarrow> nat \<Rightarrow> cmd list \<times> world \<Rightarrow> error + cmd list \<times> world" where
  "frame_atom currentTime atom k cw =
     (case cw of (out, w) \<Rightarrow>
        case Atom_draw currentTime atom of (cs, a) \<Rightarrow>
          Inr (out @ cs, w\<lparr>atoms := (atoms w)[k := a]\<rparr>))"

definition frame_snake :: "snake \<Rightarrow> nat \<Rightarrow> cmd list \<times> world \<Rightarrow> error + cmd list \<times> world" where
  "frame_snake snake k cw =
     (case cw of (out, w) \<Rightarrow>
        (case Snake_update snake w of
           Inl e \<Rightarrow> Inl e
         | Inr (s, w1) \<Rightarrow> Inr (out @ Snake_draw s, w1\<lparr>snakes := (snakes w1)[k := s]\<rparr>)))"

definition frame_photon :: "photon \<Rightarrow> nat \<Rightarrow> cmd list \<times> world \<Rightarrow> error + cmd list \<times> world" where
  "frame_photon photon k cw =
     (case cw of (out, w) \<Rightarrow>
        (case Photon_update photon w of
           Inl e \<Rightarrow> Inl e
         | Inr (p, w1) \<Rightarrow> Inr (out @ Photon_draw p, w1)))"

definition frame_portal :: "portal \<Rightarrow> cmd list \<times> world \<Rightarrow> error + cmd list \<times> world" where
  "frame_portal portal cw = (case cw of (out, w) \<Rightarrow> Inr (out @ Portal_draw portal, w))"

definition photon_pass :: "cmd list \<times> world \<Rightarrow> error + cmd list \<times> world" where
  "photon_pass cw = forEach_in (\<lambda>cw. photons (snd cw)) frame_photon cw"

definition animate :: "world \<Rightarrow> error + cmd list \<times> world" where
  "animate w =
     (case forEach_in (\<lambda>cw. blackHoles (snd cw)) frame_hole ([], w) of
        Inl e \<Rightarrow> Inl e
      | Inr (out1, w1) \<Rightarrow>
          (case performance_now w1 of (currentTime, w2) \<Rightarrow>
             (case forEach_in (\<lambda>cw. atoms (snd cw)) (frame_atom currentTime) (out1, w2) of
                Inl e \<Rightarrow> Inl e
              | Inr cw3 \<Rightarrow>
                  (case forEach_in (\<lambda>cw. snakes (snd cw)) frame_snake cw3 of
                     Inl e \<Rightarrow> Inl e
                   | Inr cw4 \<Rightarrow>
                       (case photon_pass cw4 of
                          Inl e \<Rightarrow> Inl e
                        | Inr cw5 \<Rightarrow> forEach frame_portal (portals (snd cw5)) cw5)))))"

definition init :: "real \<Rightarrow> real \<Rightarrow> world \<Rightarrow> error + cmd list \<times> world" where
  "init innerWidth innerHeight w =
     (let w0 = resizeCanvas innerWidth innerHeight w;
          w1 = w0\<lparr>atoms := [], snakes := [], photons := [], blackHoles := [], portals := []\<rparr>;
          w2 = create_atoms NUM_ATOMS w1;
          w3 = create_snakes NUM_SNAKES w2;
          w4 = create_portals NUM_PORTALS w3;
          w5 = w4\<lparr>portals := assign_partners 0 (portals w4)\<rparr>
      in animate w5)"

definition addSnakeAt :: "real \<Rightarrow> real \<Rightarrow> world \<Rightarrow> world" where
  "addSnakeAt x0 y0 w =
     (case new_Snake w of (s, w1) \<Rightarrow>
        w1\<lparr>snakes := snakes w1 @
              [s\<lparr>s_positions := replicate (nat (s_snakeLength s)) \<lparr>px = x0, py = y0\<rparr>\<rparr>]\<rparr>)"

text \<open>
  What happens after \<^verbatim>\<open>init\<close>: the next frame, a click on the canvas, a resize of the
  window. An exception in a frame ends the animation, since the next frame is requested
  in the last statement of \<^verbatim>\<open>animate\<close>.
\<close>

datatype event = Frame | Click real real | Resize real real

fun step :: "event \<Rightarrow> world \<Rightarrow> error + world" where
  "step Frame w = (case animate w of Inl e \<Rightarrow> Inl e | Inr (out, w') \<Rightarrow> Inr w')"
| "step (Click x0 y0) w = Inr (addSnakeAt x0 y0 w)"
| "step (Resize iw ih) w = Inr (resizeCanvas iw ih w)"

fun run :: "event list \<Rightarrow> world \<Rightarrow> error + world" where
  "run [] w = Inr w"
| "run (e # es) w = (case step e w of Inl err \<Rightarrow> Inl err | Inr w' \<Rightarrow> run es w')"

text \<open>The closure before \<^verbatim>\<open>init\<close> runs: empty arrays, \<^verbatim>\<open>width\<close> and \<^verbatim>\<open>height\<close> not yet set.\<close>

definition loaded :: "(nat \<Rightarrow> real) \<Rightarrow> (nat \<Rightarrow> real) \<Rightarrow> world" where
  "loaded r c =
     \<lparr>width = 0, height = 0, atoms = [], snakes = [], photons = [], blackHoles = [],
      portals = [], next_id = 0, rnd = r, rnd_calls = 0, clock = c, clock_calls = 0\<rparr>"

definition start :: "real \<Rightarrow> real \<Rightarrow> (nat \<Rightarrow> real) \<Rightarrow> (nat \<Rightarrow> real) \<Rightarrow> event list \<Rightarrow> error + world" where
  "start iw ih r c es =
     (case init iw ih (loaded r c) of Inl e \<Rightarrow> Inl e | Inr (out, w) \<Rightarrow> run es w)"

section \<open>Notions used in the statements\<close>

text \<open>A black hole after one \<^verbatim>\<open>update\<close> in each of the worlds of a list, in that order.\<close>

fun BlackHole_updates :: "world list \<Rightarrow> blackHole \<Rightarrow> blackHole" where
  "BlackHole_updates [] h = h"
| "BlackHole_updates (w # ws) h = BlackHole_updates ws (fst (BlackHole_update h w))"

text \<open>The radius is a whole number of growth steps, at most a hundred of them.\<close>

definition hole_inv :: "blackHole \<Rightarrow> bool" where
  "hole_inv h \<longleftrightarrow> b_maxRadius h = 50 \<and> b_growthRate h = 1 / 2 \<and>
     (\<exists>k::nat. k \<le> 100 \<and> b_radius h = real k / 2)"

text \<open>Following the partner link \<open>n\<close> times from the portal at index \<open>i\<close>.\<close>

fun follow :: "nat \<Rightarrow> portal list \<Rightarrow> nat \<Rightarrow> nat option" where
  "follow 0 ps i = Some i"
| "follow (Suc n) ps i =
     (if i < length ps
      then (case q_partner (ps ! i) of None \<Rightarrow> None | Some j \<Rightarrow> follow n ps j)
      else None)"

definition ring :: "portal list \<Rightarrow> bool" where
  "ring ps \<longleftrightarrow> (\<forall>k < length ps. q_partner (ps ! k) = Some ((k + 1) mod length ps))"

declare assign_partners.simps [simp del]

text \<open>Concrete entities and worlds, for the statements at explicit inputs.\<close>

definition fading :: atom where
  "fading = \<lparr>a_position = \<lparr>px = 30, py = 40\<rparr>, a_state = 1, a_startTime = 5000, a_hue = 300,
     a_radius = 10, a_type = Normal\<rparr>"

definition special_atom :: atom where
  "special_atom = \<lparr>a_position = \<lparr>px = 30, py = 40\<rparr>, a_state = 0, a_startTime = 0, a_hue = 300,
     a_radius = 10, a_type = Special\<rparr>"

definition spent_atom :: atom where
  "spent_atom = \<lparr>a_position = \<lparr>px = 300, py = 300\<rparr>, a_state = 2, a_startTime = 0, a_hue = 290,
     a_radius = 10, a_type = Normal\<rparr>"

definition three_portals :: "portal list" where
  "three_portals =
     [\<lparr>q_position = \<lparr>px = 700, py = 500\<rparr>, q_radius = 20, q_partner = Some 1\<rparr>,
      \<lparr>q_position = \<lparr>px = 600, py = 100\<rparr>, q_radius = 20, q_partner = Some 2\<rparr>,
      \<lparr>q_position = \<lparr>px = 50, py = 550\<rparr>, q_radius = 20, q_partner = Some 0\<rparr>]"

definition old_photon :: photon where
  "old_photon = \<lparr>p_id = 0, p_position = \<lparr>px = 100, py = 100\<rparr>, p_velocity = \<lparr>px = 1, py = 0\<rparr>,
     p_hue = 300, p_life = 100, p_maxLife = 100, p_size = 3, p_type = Normal\<rparr>"

definition young_photon :: photon where
  "young_photon = \<lparr>p_id = 5, p_position = \<lparr>px = 200, py = 100\<rparr>, p_velocity = \<lparr>px = 1, py = 0\<rparr>,
     p_hue = 280, p_life = 7, p_maxLife = 100, p_size = 3, p_type = Normal\<rparr>"

definition pass_world :: world where
  "pass_world =
     \<lparr>width = 800, height = 600, atoms = [spent_atom, spent_atom], snakes = [],
      photons = [old_photon, young_photon],
      blackHoles = [], portals = three_portals, next_id = 10,
      rnd = (\<lambda>n. 1 / 2), rnd_calls = 0, clock = (\<lambda>n. 0), clock_calls = 0\<rparr>"

text \<open>
  What the atoms account for. An atom that is no longer alive has emitted its photons, 5 or
  15 of them, and has left one black hole if it is special; \<open>next_id\<close> counts the photons
  ever made. A world is \<open>counted\<close> when the photons ever made and the black holes are those
  of its atoms that are no longer alive, each atom counted once.
\<close>

definition emitted :: "atom \<Rightarrow> nat" where
  "emitted a = (if a_state a = 0 then 0 else if a_type a = Normal then 5 else 15)"

definition holes_due :: "atom \<Rightarrow> nat" where
  "holes_due a = (if a_type a = Special \<and> a_state a \<noteq> 0 then 1 else 0)"

definition counted :: "world \<Rightarrow> bool" where
  "counted w \<longleftrightarrow>
     next_id w = sum_list (map emitted (atoms w)) \<and>
     length (blackHoles w) = sum_list (map holes_due (atoms w))"

text \<open>Every portal has a partner among the portals.\<close>

definition portals_ok :: "portal list \<Rightarrow> bool" where
  "portals_ok ps = list_all (\<lambda>q. case q_partner q of None \<Rightarrow> False | Some j \<Rightarrow> j < length ps) ps"

text \<open>A snake has a head to read, and a desired length of at least 10.\<close>

definition snake_ok :: "snake \<Rightarrow> bool" where
  "snake_ok s \<longleftrightarrow> s_positions s \<noteq> [] \<and> 10 \<le> s_snakeLength s"

text \<open>
  The photons in the array are distinct objects that the constructor has made: their
  identities differ and lie below \<open>next_id\<close>, and their cap is 100.
\<close>

definition photons_ok :: "world \<Rightarrow> bool" where
  "photons_ok w \<longleftrightarrow>
     distinct (map p_id (photons w)) \<and>
     list_all (\<lambda>p. p_id p < next_id w) (photons w) \<and>
     list_all (\<lambda>p. p_maxLife p = 100) (photons w)"

definition world_ok :: "world \<Rightarrow> bool" where
  "world_ok w \<longleftrightarrow>
     portals_ok (portals w) \<and> list_all snake_ok (snakes w) \<and> counted w \<and> photons_ok w"

text \<open>What a frame leaves as it is: the portals, the canvas, and how many snakes and atoms there are.\<close>

definition same_shape :: "world \<Rightarrow> world \<Rightarrow> bool" where
  "same_shape w w' \<longleftrightarrow>
     portals w' = portals w \<and> length (snakes w') = length (snakes w) \<and>
     length (atoms w') = length (atoms w) \<and> width w' = width w \<and> height w' = height w"

text \<open>The number of clicks among the events.\<close>

fun clicks :: "event list \<Rightarrow> nat" where
  "clicks [] = 0"
| "clicks (Click x0 y0 # es) = Suc (clicks es)"
| "clicks (e # es) = clicks es"

text \<open>
  A world with one black hole, fully grown, where a special atom was eaten, long gone, and
  one snake as the click handler makes it, all its positions at one point beside the hole.
\<close>

definition gone_atom :: atom where
  "gone_atom = \<lparr>a_position = \<lparr>px = 100, py = 100\<rparr>, a_state = 2, a_startTime = 0, a_hue = 300,
     a_radius = 10, a_type = Special\<rparr>"

definition fresh_snake :: snake where
  "fresh_snake = \<lparr>s_hue = 200, s_color = Hsl 200,
     s_positions = replicate 40 \<lparr>px = 90, py = 100\<rparr>,
     s_snakeLength = 40, s_angle = 0, s_target = None\<rparr>"

definition hole_world :: world where
  "hole_world =
     \<lparr>width = 800, height = 600, atoms = [gone_atom], snakes = [fresh_snake], photons = [],
      blackHoles = [\<lparr>b_position = \<lparr>px = 100, py = 100\<rparr>, b_radius = 50, b_maxRadius = 50,
                     b_growthRate = 0.5\<rparr>],
      portals = three_portals, next_id = 15,
      rnd = (\<lambda>n. 1 / 2), rnd_calls = 0, clock = (\<lambda>n. 0), clock_calls = 0\<rparr>"

section \<open>Black holes\<close>

lemma fst_BlackHole_update:
  "fst (BlackHole_update h w) =
     (if b_radius h < b_maxRadius h then h\<lparr>b_radius := b_radius h + b_growthRate h\<rparr> else h)"
  by (simp add: BlackHole_update_def Let_def)

lemma hole_inv_new: "hole_inv (new_BlackHole x0 y0)"
  by (simp add: hole_inv_def new_BlackHole_def)

lemma hole_inv_update: "hole_inv h \<Longrightarrow> hole_inv (fst (BlackHole_update h w))"
proof -
  assume inv: "hole_inv h"
  then obtain k :: nat where k: "k \<le> 100" "b_radius h = real k / 2"
    and m: "b_maxRadius h = 50" and g: "b_growthRate h = 1 / 2"
    by (auto simp: hole_inv_def)
  show ?thesis
  proof (cases "b_radius h < b_maxRadius h")
    case True
    with k m have "k < 100" by simp
    then have "Suc k \<le> 100" by simp
    moreover have "b_radius h + b_growthRate h = real (Suc k) / 2"
      using k g by simp
    ultimately show ?thesis using True m g
      unfolding hole_inv_def fst_BlackHole_update by (auto intro!: exI[of _ "Suc k"])
  next
    case False
    then show ?thesis using inv by (simp add: fst_BlackHole_update)
  qed
qed

lemma hole_inv_updates: "hole_inv h \<Longrightarrow> hole_inv (BlackHole_updates ws h)"
  by (induction ws arbitrary: h) (simp_all add: hole_inv_update)

lemma hole_inv_le: "hole_inv h \<Longrightarrow> 0 \<le> b_radius h \<and> b_radius h \<le> b_maxRadius h"
  by (auto simp: hole_inv_def)

text \<open>
  Claim C5. Take a black hole as its constructor makes it and let it go through any number
  of \<^verbatim>\<open>update\<close> calls, in whatever worlds. One more \<^verbatim>\<open>update\<close> never lowers the radius: it
  leaves it as it is or adds the growth rate \<open>0.5\<close> to it. The radius never exceeds the
  maximum radius, which stays \<open>50\<close>.
\<close>

theorem BlackHole_radius_monotone_capped:
  "b_radius (BlackHole_updates ws (new_BlackHole x0 y0))
     \<le> b_radius (fst (BlackHole_update (BlackHole_updates ws (new_BlackHole x0 y0)) w)) \<and>
   (b_radius (fst (BlackHole_update (BlackHole_updates ws (new_BlackHole x0 y0)) w))
      = b_radius (BlackHole_updates ws (new_BlackHole x0 y0)) \<or>
    b_radius (fst (BlackHole_update (BlackHole_updates ws (new_BlackHole x0 y0)) w))
      = b_radius (BlackHole_updates ws (new_BlackHole x0 y0))
        + b_growthRate (BlackHole_updates ws (new_BlackHole x0 y0))) \<and>
   b_radius (BlackHole_updates ws (new_BlackHole x0 y0))
     \<le> b_maxRadius (BlackHole_updates ws (new_BlackHole x0 y0)) \<and>
   b_maxRadius (BlackHole_updates ws (new_BlackHole x0 y0)) = 50 \<and>
   b_growthRate (BlackHole_updates ws (new_BlackHole x0 y0)) = 0.5"
proof -
  define h where "h = BlackHole_updates ws (new_BlackHole x0 y0)"
  have inv: "hole_inv h"
    unfolding h_def by (rule hole_inv_updates) (rule hole_inv_new)
  have g: "b_growthRate h = 1 / 2" and m: "b_maxRadius h = 50"
    using inv by (simp_all add: hole_inv_def)
  show ?thesis
    unfolding h_def[symmetric] using hole_inv_le[OF inv] g m
    by (simp add: fst_BlackHole_update)
qed

theorem BlackHole_radius_monotone_capped_witness:
  "b_radius (BlackHole_updates [pass_world, pass_world, pass_world] (new_BlackHole 30 40)) = 1.5 \<and>
   b_radius (fst (BlackHole_update
      (BlackHole_updates [pass_world, pass_world, pass_world] (new_BlackHole 30 40)) pass_world)) = 2 \<and>
   b_maxRadius (BlackHole_updates [pass_world, pass_world, pass_world] (new_BlackHole 30 40)) = 50"
  using BlackHole_radius_monotone_capped [of "[pass_world, pass_world, pass_world]" 30 40 pass_world]
  by (simp add: fst_BlackHole_update new_BlackHole_def)

section \<open>Portals\<close>

lemma length_assign_partners: "length (assign_partners i ps) = length ps"
proof (induction i ps rule: assign_partners.induct)
  case (1 i ps)
  show ?case
  proof (cases "i < length ps")
    case True
    then show ?thesis using 1 by (subst assign_partners.simps) simp
  next
    case False
    then show ?thesis by (subst assign_partners.simps) simp
  qed
qed

lemma nth_assign_partners:
  "k < length ps \<Longrightarrow>
   assign_partners i ps ! k =
     (if i \<le> k then (ps ! k)\<lparr>q_partner := Some ((k + 1) mod length ps)\<rparr> else ps ! k)"
proof (induction i ps rule: assign_partners.induct)
  case (1 i ps)
  show ?case
  proof (cases "i < length ps")
    case True
    let ?ps = "ps[i := (ps ! i)\<lparr>q_partner := Some ((i + 1) mod length ps)\<rparr>]"
    have "assign_partners i ps ! k = assign_partners (i + 1) ?ps ! k"
      using True by (subst assign_partners.simps) simp
    also have "\<dots> = (if i + 1 \<le> k then (?ps ! k)\<lparr>q_partner := Some ((k + 1) mod length ?ps)\<rparr>
                      else ?ps ! k)"
      using 1 True by simp
    finally show ?thesis using True "1.prems"
      by (cases "k = i") (simp_all add: nth_list_update)
  next
    case False
    then show ?thesis using "1.prems" by (subst assign_partners.simps) simp
  qed
qed

lemma ring_assign_partners: "ring (assign_partners 0 ps)"
  by (simp add: ring_def length_assign_partners nth_assign_partners)

lemma follow_ring:
  "ring ps \<Longrightarrow> i < length ps \<Longrightarrow> follow m ps i = Some ((i + m) mod length ps)"
proof (induction m arbitrary: i)
  case 0
  then show ?case by simp
next
  case (Suc m)
  from Suc.prems have "0 < length ps" by auto
  then have "(i + 1) mod length ps < length ps" by simp
  then have "follow m ps ((i + 1) mod length ps) = Some (((i + 1) mod length ps + m) mod length ps)"
    using Suc by blast
  moreover have "((i + 1) mod length ps + m) mod length ps = (i + Suc m) mod length ps"
    by (simp add: mod_add_left_eq)
  moreover have "q_partner (ps ! i) = Some ((i + 1) mod length ps)"
    using Suc.prems by (simp add: ring_def)
  ultimately show ?case using Suc.prems(2) by simp
qed

lemma assign_partners_ring:
  "i < length ps \<Longrightarrow>
   length (assign_partners 0 ps) = length ps \<and>
   q_partner (assign_partners 0 ps ! i) = Some ((i + 1) mod length ps) \<and>
   follow (length ps) (assign_partners 0 ps) i = Some i \<and>
   (1 < length ps \<longrightarrow> q_partner (assign_partners 0 ps ! i) \<noteq> Some i)"
proof -
  assume i: "i < length ps"
  have r: "ring (assign_partners 0 ps)" by (rule ring_assign_partners)
  have "follow (length ps) (assign_partners 0 ps) i = Some i"
    using follow_ring[OF r, of i "length ps"] i by (simp add: length_assign_partners)
  moreover have "1 < length ps \<longrightarrow> (i + 1) mod length ps \<noteq> i"
  proof
    assume n: "1 < length ps"
    show "(i + 1) mod length ps \<noteq> i"
    proof (cases "i + 1 < length ps")
      case True
      then show ?thesis by simp
    next
      case False
      with i have "i + 1 = length ps" by simp
      then show ?thesis using n by auto
    qed
  qed
  ultimately show ?thesis using i
    by (simp add: length_assign_partners nth_assign_partners)
qed

section \<open>Atoms\<close>

lemma map_const_replicate:
  "(\<And>v. v \<in> set xs \<Longrightarrow> f v = c) \<Longrightarrow> map f xs = replicate (length xs) c"
  by (induction xs) simp_all

lemma new_Photon_world:
  "snd (new_Photon x0 y0 hue ty w) = w\<lparr>rnd_calls := rnd_calls w + 1, next_id := next_id w + 1\<rparr>"
  by (simp add: new_Photon_def random_def Let_def)

lemma new_Photon_photon:
  "p_id (fst (new_Photon x0 y0 hue ty w)) = next_id w"
  "p_position (fst (new_Photon x0 y0 hue ty w)) = \<lparr>px = x0, py = y0\<rparr>"
  "p_hue (fst (new_Photon x0 y0 hue ty w)) = hue"
  "p_type (fst (new_Photon x0 y0 hue ty w)) = ty"
  "p_life (fst (new_Photon x0 y0 hue ty w)) = 0"
  "p_maxLife (fst (new_Photon x0 y0 hue ty w)) = 100"
  by (simp_all add: new_Photon_def random_def Let_def)

lemma push_photons_Suc:
  "push_photons (Suc n) a w =
     push_photons n a
       (w\<lparr>rnd_calls := rnd_calls w + 1, next_id := next_id w + 1,
          photons := photons w @
            [fst (new_Photon (px (a_position a)) (py (a_position a)) (a_hue a) (a_type a) w)]\<rparr>)"
proof -
  obtain p w1 where pw: "new_Photon (px (a_position a)) (py (a_position a)) (a_hue a) (a_type a) w = (p, w1)"
    by (cases "new_Photon (px (a_position a)) (py (a_position a)) (a_hue a) (a_type a) w")
  have "w1 = w\<lparr>rnd_calls := rnd_calls w + 1, next_id := next_id w + 1\<rparr>"
    using new_Photon_world[of "px (a_position a)" "py (a_position a)" "a_hue a" "a_type a" w] pw
    by simp
  then show ?thesis using pw by simp
qed

lemma push_photons_frame:
  "atoms (push_photons n a w) = atoms w"
  "snakes (push_photons n a w) = snakes w"
  "blackHoles (push_photons n a w) = blackHoles w"
  "portals (push_photons n a w) = portals w"
  "width (push_photons n a w) = width w"
  "height (push_photons n a w) = height w"
  "clock (push_photons n a w) = clock w"
  "clock_calls (push_photons n a w) = clock_calls w"
  "rnd (push_photons n a w) = rnd w"
  "next_id (push_photons n a w) = next_id w + n"
  by (induction n arbitrary: w; simp add: push_photons_Suc del: push_photons.simps(2))+

lemma push_photons_photons:
  "\<exists>ps. photons (push_photons n a w) = photons w @ ps \<and> length ps = n \<and>
        map p_id ps = [next_id w ..< next_id w + n] \<and>
        (\<forall>p \<in> set ps. p_position p = a_position a \<and> p_hue p = a_hue a \<and>
                        p_type p = a_type a \<and> p_life p = 0 \<and> p_maxLife p = 100)"
proof (induction n arbitrary: w)
  case 0
  then show ?case by simp
next
  case (Suc n)
  let ?p = "fst (new_Photon (px (a_position a)) (py (a_position a)) (a_hue a) (a_type a) w)"
  let ?w = "w\<lparr>rnd_calls := rnd_calls w + 1, next_id := next_id w + 1,
              photons := photons w @ [?p]\<rparr>"
  from Suc[of ?w] obtain ps where ps:
    "photons (push_photons n a ?w) = photons ?w @ ps" "length ps = n"
    "map p_id ps = [next_id ?w ..< next_id ?w + n]"
    "\<forall>p \<in> set ps. p_position p = a_position a \<and> p_hue p = a_hue a \<and>
                        p_type p = a_type a \<and> p_life p = 0 \<and> p_maxLife p = 100"
    by blast
  have "photons (push_photons (Suc n) a w) = photons w @ (?p # ps)"
    using ps(1) by (simp add: push_photons_Suc del: push_photons.simps(2))
  moreover have "length (?p # ps) = Suc n" using ps(2) by simp
  moreover have "map p_id (?p # ps) = [next_id w ..< next_id w + Suc n]"
    using ps(3) by (simp add: new_Photon_photon upt_conv_Cons)
  moreover have "\<forall>p \<in> set (?p # ps). p_position p = a_position a \<and> p_hue p = a_hue a \<and>
                        p_type p = a_type a \<and> p_life p = 0 \<and> p_maxLife p = 100"
    using ps(4) by (simp add: new_Photon_photon)
  ultimately show ?case by blast
qed

text \<open>
  Claim C4. \<^verbatim>\<open>disintegrate(t)\<close> on an atom (alive or not) stores \<open>t\<close> as the start time and
  sets the state to 1, disintegrating. It appends to \<^verbatim>\<open>photons\<close> exactly 5 new photons for a
  normal atom and exactly 15 for a special one, each at the atom's position with the atom's
  hue and type. It appends to \<^verbatim>\<open>blackHoles\<close> exactly one new black hole for a special atom
  and nothing for a normal one; the new black hole is at the atom's position, with radius 0,
  maximum radius 50 and growth rate 0.5, as its constructor makes it.
\<close>

theorem Atom_disintegrate_emits:
  "fst (Atom_disintegrate t a w) = a\<lparr>a_startTime := t, a_state := 1\<rparr> \<and>
   (\<exists>ps. photons (snd (Atom_disintegrate t a w)) = photons w @ ps \<and>
         length ps = (if a_type a = Normal then 5 else 15) \<and>
         (\<forall>p \<in> set ps. p_position p = a_position a \<and> p_hue p = a_hue a \<and>
                         p_type p = a_type a)) \<and>
   blackHoles (snd (Atom_disintegrate t a w)) =
     blackHoles w @
       (if a_type a = Special then [new_BlackHole (px (a_position a)) (py (a_position a))]
        else []) \<and>
   (\<exists>hs. blackHoles (snd (Atom_disintegrate t a w)) = blackHoles w @ hs \<and>
         length hs = (if a_type a = Special then 1 else 0) \<and>
         (\<forall>h \<in> set hs. b_position h = a_position a \<and> b_radius h = 0 \<and>
                         b_maxRadius h = 50 \<and> b_growthRate h = 0.5))"
proof -
  let ?a = "a\<lparr>a_startTime := t, a_state := 1\<rparr>"
  let ?n = "if a_type a = Normal then 5 else 15 :: nat"
  let ?hs = "if a_type a = Special then [new_BlackHole (px (a_position a)) (py (a_position a))]
        else []"
  obtain ps where ps: "photons (push_photons ?n ?a w) = photons w @ ps" "length ps = ?n"
    "\<forall>p \<in> set ps. p_position p = a_position ?a \<and> p_hue p = a_hue ?a \<and>
                        p_type p = a_type ?a \<and> p_life p = 0 \<and> p_maxLife p = 100"
    using push_photons_photons[of ?n ?a w] by blast
  have "photons (snd (Atom_disintegrate t a w)) = photons w @ ps"
    using ps(1) by (cases "a_type a") (simp_all add: Atom_disintegrate_def Let_def)
  moreover have "\<forall>p \<in> set ps. p_position p = a_position a \<and> p_hue p = a_hue a \<and>
                         p_type p = a_type a"
    using ps(3) by simp
  ultimately have c2: "\<exists>ps. photons (snd (Atom_disintegrate t a w)) = photons w @ ps \<and>
         length ps = (if a_type a = Normal then 5 else 15) \<and>
         (\<forall>p \<in> set ps. p_position p = a_position a \<and> p_hue p = a_hue a \<and>
                         p_type p = a_type a)"
    using ps(2) by blast
  have c1: "fst (Atom_disintegrate t a w) = ?a"
    by (simp add: Atom_disintegrate_def Let_def)
  have c3: "blackHoles (snd (Atom_disintegrate t a w)) = blackHoles w @ ?hs"
    by (simp add: Atom_disintegrate_def Let_def push_photons_frame)
  have "length ?hs = (if a_type a = Special then 1 else 0)" by simp
  moreover have "\<forall>h \<in> set ?hs. b_position h = a_position a \<and> b_radius h = 0 \<and>
                         b_maxRadius h = 50 \<and> b_growthRate h = 0.5"
    by (simp add: new_BlackHole_def)
  ultimately have c4: "\<exists>hs. blackHoles (snd (Atom_disintegrate t a w)) = blackHoles w @ hs \<and>
         length hs = (if a_type a = Special then 1 else 0) \<and>
         (\<forall>h \<in> set hs. b_position h = a_position a \<and> b_radius h = 0 \<and>
                         b_maxRadius h = 50 \<and> b_growthRate h = 0.5)"
    using c3 by blast
  from c1 c2 c3 c4 show ?thesis by (intro conjI)
qed

theorem Atom_disintegrate_emits_witness:
  "a_state (fst (Atom_disintegrate 1234 special_atom (loaded (\<lambda>n. 0) (\<lambda>n. 0)))) = 1 \<and>
   a_startTime (fst (Atom_disintegrate 1234 special_atom (loaded (\<lambda>n. 0) (\<lambda>n. 0)))) = 1234 \<and>
   length (photons (snd (Atom_disintegrate 1234 special_atom (loaded (\<lambda>n. 0) (\<lambda>n. 0))))) = 15 \<and>
   map p_type (photons (snd (Atom_disintegrate 1234 special_atom (loaded (\<lambda>n. 0) (\<lambda>n. 0)))))
     = replicate 15 Special \<and>
   map p_position (photons (snd (Atom_disintegrate 1234 special_atom (loaded (\<lambda>n. 0) (\<lambda>n. 0)))))
     = replicate 15 \<lparr>px = 30, py = 40\<rparr> \<and>
   blackHoles (snd (Atom_disintegrate 1234 special_atom (loaded (\<lambda>n. 0) (\<lambda>n. 0)))) =
     [new_BlackHole 30 40] \<and>
   map b_position (blackHoles (snd (Atom_disintegrate 1234 special_atom (loaded (\<lambda>n. 0) (\<lambda>n. 0)))))
     = [\<lparr>px = 30, py = 40\<rparr>] \<and>
   map b_radius (blackHoles (snd (Atom_disintegrate 1234 special_atom (loaded (\<lambda>n. 0) (\<lambda>n. 0)))))
     = [0]"
proof -
  let ?r = "Atom_disintegrate 1234 special_atom (loaded (\<lambda>n. 0) (\<lambda>n. 0))"
  note e = Atom_disintegrate_emits [of 1234 special_atom "loaded (\<lambda>n. 0) (\<lambda>n. 0)"]
  from e obtain ps where ps: "photons (snd ?r) = photons (loaded (\<lambda>n. 0) (\<lambda>n. 0)) @ ps"
    "length ps = (if a_type special_atom = Normal then 5 else 15)"
    "\<forall>p \<in> set ps. p_position p = a_position special_atom \<and> p_hue p = a_hue special_atom \<and>
       p_type p = a_type special_atom"
    by blast
  from e obtain hs where hs: "blackHoles (snd ?r) = blackHoles (loaded (\<lambda>n. 0) (\<lambda>n. 0)) @ hs"
    "length hs = (if a_type special_atom = Special then 1 else 0)"
    "\<forall>h \<in> set hs. b_position h = a_position special_atom \<and> b_radius h = 0 \<and>
       b_maxRadius h = 50 \<and> b_growthRate h = 0.5"
    by blast
  have len: "length ps = 15" using ps(2) by (simp add: special_atom_def)
  have hlen: "length hs = 1" using hs(2) by (simp add: special_atom_def)
  have c4: "map p_type (photons (snd ?r)) = replicate 15 Special"
  proof -
    have "map p_type ps = replicate (length ps) Special"
      using ps(3) by (intro map_const_replicate) (simp add: special_atom_def)
    then show ?thesis using ps(1) len by (simp add: loaded_def)
  qed
  have c5: "map p_position (photons (snd ?r)) = replicate 15 \<lparr>px = 30, py = 40\<rparr>"
  proof -
    have "map p_position ps = replicate (length ps) \<lparr>px = 30, py = 40\<rparr>"
      using ps(3) by (intro map_const_replicate) (simp add: special_atom_def)
    then show ?thesis using ps(1) len by (simp add: loaded_def)
  qed
  have c3: "length (photons (snd ?r)) = 15" using ps(1) len by (simp add: loaded_def)
  have c7: "map b_position (blackHoles (snd ?r)) = [\<lparr>px = 30, py = 40\<rparr>]"
  proof -
    have "map b_position hs = replicate (length hs) \<lparr>px = 30, py = 40\<rparr>"
      using hs(3) by (intro map_const_replicate) (simp add: special_atom_def)
    then show ?thesis using hs(1) hlen by (simp add: loaded_def)
  qed
  have c8: "map b_radius (blackHoles (snd ?r)) = [0]"
  proof -
    have "map b_radius hs = replicate (length hs) 0"
      using hs(3) by (intro map_const_replicate) simp
    then show ?thesis using hs(1) hlen by (simp add: loaded_def)
  qed
  have c1: "a_state (fst ?r) = 1" and c2: "a_startTime (fst ?r) = 1234"
    using e by simp_all
  have c6: "blackHoles (snd ?r) = [new_BlackHole 30 40]"
    using e by (simp add: special_atom_def loaded_def)
  from c1 c2 c3 c4 c5 c6 c7 c8 show ?thesis by (intro conjI)
qed

text \<open>
  Claim C7. A disintegrating atom (state 1) with start time \<open>t0\<close>, drawn at time \<open>t\<close> with
  \<open>(t - t0) / 1000 \<le> 1\<close>, is drawn as one circle of radius \<open>radius * (1 - (t - t0) / 1000)\<close>
  and alpha \<open>1 - (t - t0) / 1000\<close>, and stays as it is. Once \<open>(t - t0) / 1000\<close> exceeds 1, as
  at \<open>t0 + 1001\<close>, the draw issues no drawing call and the atom moves to state 2, gone. An atom
  in state 2 is never drawn.
\<close>

theorem Atom_draw_fade:
  "(a_state a = 1 \<and> (t - a_startTime a) / 1000 \<le> 1 \<longrightarrow>
      Atom_draw t a =
        ([BeginPath,
          Arc (px (a_position a)) (py (a_position a))
              (a_radius a * (1 - (t - a_startTime a) / 1000)) 0 TWO_PI,
          FillStyle (Hsla (a_hue a) (1 - (t - a_startTime a) / 1000)),
          ShadowColor (Hsla (a_hue a) (1 - (t - a_startTime a) / 1000)),
          ShadowBlur (20 * (1 - (t - a_startTime a) / 1000)),
          Fill,
          ShadowBlur 0], a)) \<and>
   (a_state a = 1 \<and> (t - a_startTime a) / 1000 > 1 \<longrightarrow>
      Atom_draw t a = ([], a\<lparr>a_state := 2\<rparr>)) \<and>
   (a_state a = 1 \<longrightarrow>
      Atom_draw (a_startTime a + 1001) a = ([], a\<lparr>a_state := 2\<rparr>)) \<and>
   (a_state a = 2 \<longrightarrow> Atom_draw t a = ([], a))"
  by (simp add: Atom_draw_def DISAPPEAR_TIME_def Let_def)

theorem Atom_draw_fade_witness:
  "a_state fading = 1 \<and> (5250 - a_startTime fading) / 1000 \<le> 1 \<and>
   Atom_draw 5250 fading =
     ([BeginPath, Arc 30 40 7.5 0 TWO_PI, FillStyle (Hsla 300 0.75), ShadowColor (Hsla 300 0.75),
       ShadowBlur 15, Fill, ShadowBlur 0], fading) \<and>
   (6001 - a_startTime fading) / 1000 > 1 \<and>
   Atom_draw 6001 fading = ([], fading\<lparr>a_state := 2\<rparr>) \<and>
   a_state (fading\<lparr>a_state := 2\<rparr>) = 2 \<and>
   Atom_draw 7000 (fading\<lparr>a_state := 2\<rparr>) = ([], fading\<lparr>a_state := 2\<rparr>)"
  using Atom_draw_fade [of fading 5250] Atom_draw_fade [of fading 6001]
    Atom_draw_fade [of "fading\<lparr>a_state := 2\<rparr>" 7000]
  by (simp add: fading_def)

section \<open>Loops and distances\<close>

lemma hypot_less_iff: "hypot dx dy < r \<longleftrightarrow> 0 < r \<and> dx * dx + dy * dy < r * r"
proof (cases "0 < r")
  case True
  have "sqrt (dx * dx + dy * dy) < sqrt (r * r) \<longleftrightarrow> dx * dx + dy * dy < r * r"
    by (rule real_sqrt_less_iff)
  moreover have "sqrt (r * r) = r" using True by simp
  ultimately show ?thesis using True by (simp add: hypot_def)
next
  case False
  have "0 \<le> sqrt (dx * dx + dy * dy)" by simp
  with False show ?thesis unfolding hypot_def by linarith
qed

lemma forEach_preserves:
  assumes "forEach f xs s = Inr s'" and "P s"
    and "\<And>x t t'. x \<in> set xs \<Longrightarrow> P t \<Longrightarrow> f x t = Inr t' \<Longrightarrow> P t'"
  shows "P s'"
  using assms
proof (induction xs arbitrary: s)
  case Nil
  then show ?case by simp
next
  case (Cons x xs)
  from Cons.prems(1) obtain t where t: "f x s = Inr t" "forEach f xs t = Inr s'"
    by (auto split: sum.splits)
  have "P t" using Cons.prems(3)[of x s t] Cons.prems(2) t(1) by simp
  show ?case
  proof (rule Cons.IH[OF t(2) \<open>P t\<close>])
    fix y u u'
    assume "y \<in> set xs" "P u" "f y u = Inr u'"
    then show "P u'" using Cons.prems(3)[of y u u'] by simp
  qed
qed

section \<open>Drawing twice\<close>

text \<open>
  Claim C3, as the script has it. The draw methods of Photon, Snake, BlackHole and Portal
  assign no field, so they are functions from the entity to its drawing calls. \<^verbatim>\<open>Atom.draw\<close>
  assigns one: it moves a disintegrating atom to state 2 once \<open>(t - startTime) / 1000\<close>
  exceeds 1. Drawing an atom a second time at the same \<open>t\<close> issues the same drawing calls as
  the first time and leaves the atom as the first draw left it; and the first draw leaves
  every field as it was, except for that one move to state 2.
\<close>

theorem Atom_draw_twice:
  "fst (Atom_draw t (snd (Atom_draw t a))) = fst (Atom_draw t a) \<and>
   snd (Atom_draw t (snd (Atom_draw t a))) = snd (Atom_draw t a) \<and>
   (snd (Atom_draw t a) = a \<or>
    a_state a = 1 \<and> (t - a_startTime a) / 1000 > 1 \<and> snd (Atom_draw t a) = a\<lparr>a_state := 2\<rparr>)"
  by (simp add: Atom_draw_def DISAPPEAR_TIME_def Let_def)

theorem Atom_draw_twice_witness:
  "fst (Atom_draw 6001 (snd (Atom_draw 6001 fading))) = [] \<and>
   snd (Atom_draw 6001 (snd (Atom_draw 6001 fading))) = fading\<lparr>a_state := 2\<rparr> \<and>
   snd (Atom_draw 5250 fading) = fading"
  using Atom_draw_twice [of 6001 fading] Atom_draw_twice [of 5250 fading]
  by (simp add: fading_def Atom_draw_def DISAPPEAR_TIME_def Let_def)

text \<open>
  Claim C3 as stated fails: drawing the disintegrating atom \<open>fading\<close> at a time beyond its
  fade changes its state, and after two draws the state still differs from the one before
  the first.
\<close>

theorem draw_mutates_counterexample:
  "snd (Atom_draw 6001 fading) \<noteq> fading \<and>
   a_state (snd (Atom_draw 6001 (snd (Atom_draw 6001 fading)))) \<noteq> a_state fading"
  by (simp add: fading_def Atom_draw_def DISAPPEAR_TIME_def Let_def)

section \<open>Photons\<close>

lemma map_id_store_photon: "map p_id (store_photon p qs) = map p_id qs"
  by (induction qs) (simp_all add: store_photon_def)

lemma indexOf_in: "i \<in> p_id ` set qs \<Longrightarrow> 0 \<le> indexOf qs i \<and> indexOf qs i < int (length qs)"
  by (induction qs) (auto simp: Let_def)

lemma splice1_Cons_0: "splice1 (q # qs) 0 = qs"
  by (simp add: splice1_def)

lemma splice1_Cons_Suc: "0 \<le> k \<Longrightarrow> splice1 (q # qs) (k + 1) = q # splice1 qs k"
  by (simp add: splice1_def Let_def nat_add_distrib min_def)

lemma splice1_indexOf:
  "distinct (map p_id qs) \<Longrightarrow> i \<in> p_id ` set qs \<Longrightarrow>
   splice1 qs (indexOf qs i) = filter (\<lambda>q. p_id q \<noteq> i) qs"
proof (induction qs)
  case Nil
  then show ?case by simp
next
  case (Cons q qs)
  show ?case
  proof (cases "p_id q = i")
    case True
    then have "i \<notin> p_id ` set qs" using Cons.prems(1) by auto
    then have "filter (\<lambda>q. p_id q \<noteq> i) qs = qs" by (auto simp: filter_id_conv)
    then show ?thesis using True by (simp add: splice1_Cons_0)
  next
    case False
    then have mem: "i \<in> p_id ` set qs" using Cons.prems(2) by auto
    have d: "distinct (map p_id qs)" using Cons.prems(1) by simp
    have k: "0 \<le> indexOf qs i" using indexOf_in[OF mem] by simp
    then have idx: "indexOf (q # qs) i = indexOf qs i + 1" using False by (simp add: Let_def)
    have "splice1 (q # qs) (indexOf (q # qs) i) = splice1 (q # qs) (indexOf qs i + 1)"
      by (simp only: idx)
    also have "\<dots> = q # splice1 qs (indexOf qs i)"
      by (rule splice1_Cons_Suc[OF k])
    also have "\<dots> = q # filter (\<lambda>q. p_id q \<noteq> i) qs"
      using Cons.IH[OF d mem] by simp
    also have "\<dots> = filter (\<lambda>q. p_id q \<noteq> i) (q # qs)"
      using False by simp
    finally show ?thesis .
  qed
qed

lemma Photon_portal_keeps:
  "Photon_portal ps portal (p, w) = Inr (p', w') \<Longrightarrow>
   p_id p' = p_id p \<and> p_life p' = p_life p \<and> p_maxLife p' = p_maxLife p \<and>
   p_velocity p' = p_velocity p \<and> p_hue p' = p_hue p \<and> p_size p' = p_size p \<and>
   p_type p' = p_type p \<and>
   photons w' = photons w \<and> width w' = width w \<and> height w' = height w \<and>
   atoms w' = atoms w \<and> snakes w' = snakes w \<and> blackHoles w' = blackHoles w \<and>
   portals w' = portals w \<and> next_id w' = next_id w"
  by (auto simp: Photon_portal_def Let_def random_def split: if_splits option.splits)

lemma Photon_portals_keep:
  assumes "forEach (Photon_portal ps) qs (p, w) = Inr (p', w')"
  shows "p_id p' = p_id p \<and> p_life p' = p_life p \<and> p_maxLife p' = p_maxLife p \<and>
   p_velocity p' = p_velocity p \<and> p_hue p' = p_hue p \<and> p_size p' = p_size p \<and>
   p_type p' = p_type p \<and>
   photons w' = photons w \<and> width w' = width w \<and> height w' = height w \<and>
   atoms w' = atoms w \<and> snakes w' = snakes w \<and> blackHoles w' = blackHoles w \<and>
   portals w' = portals w \<and> next_id w' = next_id w"
proof -
  let ?P = "\<lambda>(q, v). p_id q = p_id p \<and> p_life q = p_life p \<and> p_maxLife q = p_maxLife p \<and>
   p_velocity q = p_velocity p \<and> p_hue q = p_hue p \<and> p_size q = p_size p \<and>
   p_type q = p_type p \<and>
   photons v = photons w \<and> width v = width w \<and> height v = height w \<and>
   atoms v = atoms w \<and> snakes v = snakes w \<and> blackHoles v = blackHoles w \<and>
   portals v = portals w \<and> next_id v = next_id w"
  have "?P (p', w')"
  proof (rule forEach_preserves[OF assms, where P = ?P])
    show "?P (p, w)" by simp
  next
    fix x t t'
    assume "?P t" and "Photon_portal ps x t = Inr t'"
    then show "?P t'"
      using Photon_portal_keeps[of ps x "fst t" "snd t" "fst t'" "snd t'"]
      by (cases t; cases t') simp
  qed
  then show ?thesis by simp
qed


lemma filter_store_photon:
  "p_id p = i \<Longrightarrow>
   filter (\<lambda>q. p_id q \<noteq> i) (store_photon p qs) = filter (\<lambda>q. p_id q \<noteq> i) qs"
  by (induction qs) (simp_all add: store_photon_def)

lemma Photon_update_result:
  assumes "Photon_update this w = Inr (p', w')"
  shows "p_id p' = p_id this \<and> p_life p' = p_life this + 1 \<and> p_maxLife p' = p_maxLife this \<and>
         p_hue p' = p_hue this \<and> p_size p' = p_size this \<and> p_type p' = p_type this \<and>
         width w' = width w \<and> height w' = height w \<and>
         atoms w' = atoms w \<and> snakes w' = snakes w \<and> blackHoles w' = blackHoles w \<and>
         portals w' = portals w \<and> next_id w' = next_id w \<and>
         photons w' =
           (if removal_due p' w
            then splice1 (store_photon p' (photons w)) (indexOf (store_photon p' (photons w)) (p_id this))
            else store_photon p' (photons w))"
proof -
  from assms obtain p1 w1 where l: "forEach (Photon_portal (portals w)) (portals w) (this, w) = Inr (p1, w1)"
    by (auto simp: Photon_update_def split: sum.splits)
  note k = Photon_portals_keep[OF l]
  define p4 where "p4 = p1\<lparr>p_position := \<lparr>px = px (p_position p1) + px (p_velocity p1),
                                    py = py (p_position p1) + py (p_velocity p1)\<rparr>,
                 p_velocity := \<lparr>px = px (p_velocity p1), py = py (p_velocity p1) + GRAVITY\<rparr>,
                 p_life := p_life p1 + 1\<rparr>"
  define qs where "qs = store_photon p4 (photons w1)"
  have res: "Photon_update this w =
      (if removal_due p4 (w1\<lparr>photons := qs\<rparr>)
       then Inr (p4, w1\<lparr>photons := splice1 qs (indexOf qs (p_id p4))\<rparr>)
       else Inr (p4, w1\<lparr>photons := qs\<rparr>))"
    by (simp add: Photon_update_def l Let_def p4_def qs_def)
  have p4: "p_id p4 = p_id this" "p_life p4 = p_life this + 1" "p_maxLife p4 = p_maxLife this"
    "p_hue p4 = p_hue this" "p_size p4 = p_size this" "p_type p4 = p_type this"
    using k by (simp_all add: p4_def)
  have oc: "removal_due p4 (w1\<lparr>photons := qs\<rparr>) = removal_due p4 w"
    using k by (simp add: removal_due_def)
  have eq: "p' = p4"
    using assms res by (auto split: if_splits)
  have w': "w' = (if removal_due p4 w
                  then w1\<lparr>photons := splice1 qs (indexOf qs (p_id p4))\<rparr>
                  else w1\<lparr>photons := qs\<rparr>)"
    using assms res oc by (auto split: if_splits)
  show ?thesis
    unfolding eq w' using p4 k by (simp add: qs_def)
qed

lemma Photon_update_removal:
  assumes "Photon_update this w = Inr (p', w')"
    and "distinct (map p_id (photons w))"
    and "p_id this \<in> p_id ` set (photons w)"
    and "p_maxLife this = 100"
  shows "p_life p' = p_life this + 1 \<and>
         (p_id this \<notin> p_id ` set (photons w') \<longleftrightarrow>
            p_life p' > 100 \<or>
            px (p_position p') < 0 \<or> px (p_position p') > width w \<or>
            py (p_position p') < 0 \<or> py (p_position p') > height w) \<and>
         (p_id this \<in> p_id ` set (photons w') \<longrightarrow> p' \<in> set (photons w')) \<and>
         map p_id (filter (\<lambda>q. p_id q \<noteq> p_id this) (photons w')) =
           map p_id (filter (\<lambda>q. p_id q \<noteq> p_id this) (photons w))"
proof -
  note r = Photon_update_result[OF assms(1)]
  let ?qs = "store_photon p' (photons w)"
  have ids: "map p_id ?qs = map p_id (photons w)" by (rule map_id_store_photon)
  have d: "distinct (map p_id ?qs)" using assms(2) ids by simp
  have m: "p_id this \<in> p_id ` set ?qs"
    using assms(3) ids by (metis list.set_map)
  have sp: "splice1 ?qs (indexOf ?qs (p_id this)) = filter (\<lambda>q. p_id q \<noteq> p_id this) ?qs"
    by (rule splice1_indexOf[OF d m])
  have other: "filter (\<lambda>q. p_id q \<noteq> p_id this) ?qs = filter (\<lambda>q. p_id q \<noteq> p_id this) (photons w)"
    using r by (simp add: filter_store_photon)
  have stored: "p' \<in> set ?qs"
    using assms(3) r by (auto simp: store_photon_def)
  have oc: "removal_due p' w \<longleftrightarrow> p_life p' > 100 \<or>
            px (p_position p') < 0 \<or> px (p_position p') > width w \<or>
            py (p_position p') < 0 \<or> py (p_position p') > height w"
    using r assms(4) by (simp add: removal_due_def)
  show ?thesis
  proof (cases "removal_due p' w")
    case True
    then have "photons w' = filter (\<lambda>q. p_id q \<noteq> p_id this) ?qs" using r sp by simp
    then show ?thesis using True oc r other by auto
  next
    case False
    then have "photons w' = ?qs" using r by simp
    then show ?thesis using False oc r other m stored by auto
  qed
qed


lemma Photon_update_old:
  "Photon_update old_photon pass_world =
     Inr (old_photon\<lparr>p_position := \<lparr>px = 101, py = 100\<rparr>,
                     p_velocity := \<lparr>px = 1, py = 0.05\<rparr>, p_life := 101\<rparr>,
          pass_world\<lparr>photons := [young_photon]\<rparr>)"
  by (simp add: Photon_update_def pass_world_def three_portals_def Photon_portal_def
      hypot_less_iff old_photon_def young_photon_def Let_def GRAVITY_def removal_due_def
      store_photon_def splice1_def)

lemma Photon_update_young:
  "Photon_update young_photon pass_world =
     Inr (young_photon\<lparr>p_position := \<lparr>px = 201, py = 100\<rparr>,
                     p_velocity := \<lparr>px = 1, py = 0.05\<rparr>, p_life := 8\<rparr>,
          pass_world\<lparr>photons := [old_photon, young_photon\<lparr>p_position := \<lparr>px = 201, py = 100\<rparr>,
                     p_velocity := \<lparr>px = 1, py = 0.05\<rparr>, p_life := 8\<rparr>]\<rparr>)"
  by (simp add: Photon_update_def pass_world_def three_portals_def Photon_portal_def
      hypot_less_iff old_photon_def young_photon_def Let_def GRAVITY_def removal_due_def
      store_photon_def splice1_def)

text \<open>
  Claim C2 at an explicit input: \<^verbatim>\<open>photons\<close> holds a photon at the end of its life and,
  after it, a younger one. In the pass of one frame the first removes itself while the loop
  stands at index 0; the second moves down to index 0, and the loop goes on with index 1,
  where there is nothing. The second photon stays in \<^verbatim>\<open>photons\<close>, is not updated (its fields
  are as before) and is not drawn: the only drawing calls are those of the photon that was
  removed.
\<close>

theorem photon_pass_skips:
  "world_ok pass_world \<and>
   photon_pass ([], pass_world) =
     Inr (Photon_draw (old_photon\<lparr>p_position := \<lparr>px = 101, py = 100\<rparr>,
                     p_velocity := \<lparr>px = 1, py = 0.05\<rparr>, p_life := 101\<rparr>),
          pass_world\<lparr>photons := [young_photon]\<rparr>)"
proof -
  have ok: "world_ok pass_world"
    by (simp add: world_ok_def portals_ok_def counted_def emitted_def holes_due_def
        photons_ok_def pass_world_def three_portals_def spent_atom_def old_photon_def
        young_photon_def)
  have len: "[0..<length (photons pass_world)] = [0, 1]"
    by (simp add: pass_world_def upt_rec)
  have "photon_pass ([], pass_world) =
     Inr (Photon_draw (old_photon\<lparr>p_position := \<lparr>px = 101, py = 100\<rparr>,
                     p_velocity := \<lparr>px = 1, py = 0.05\<rparr>, p_life := 101\<rparr>),
          pass_world\<lparr>photons := [young_photon]\<rparr>)"
    by (simp add: photon_pass_def forEach_in_def len frame_photon_def)
       (simp add: pass_world_def Photon_update_old[unfolded pass_world_def])
  with ok show ?thesis by simp
qed

section \<open>Snakes\<close>

lemma forEach_total:
  assumes "P s"
    and "\<And>x t. x \<in> set xs \<Longrightarrow> P t \<Longrightarrow> \<exists>t'. g x t = Inr t' \<and> P t'"
  shows "\<exists>s'. forEach g xs s = Inr s' \<and> P s'"
  using assms
proof (induction xs arbitrary: s)
  case Nil
  then show ?case by simp
next
  case (Cons x xs)
  from Cons.prems(2)[of x s] Cons.prems(1) obtain t where t: "g x s = Inr t" "P t"
    by auto
  have "\<exists>s'. forEach g xs t = Inr s' \<and> P s'"
  proof (rule Cons.IH[OF t(2)])
    fix y u
    assume "y \<in> set xs" "P u"
    then show "\<exists>t'. g y u = Inr t' \<and> P t'" using Cons.prems(2)[of y u] by simp
  qed
  then show ?case using t(1) by simp
qed

lemma forEach_in_total:
  assumes "P s"
    and "\<And>k t. P t \<Longrightarrow> k < length (arr t) \<Longrightarrow> \<exists>t'. f (arr t ! k) k t = Inr t' \<and> P t'"
  shows "\<exists>s'. forEach_in arr f s = Inr s' \<and> P s'"
  unfolding forEach_in_def
proof (rule forEach_total[where P = P, OF assms(1)])
  fix k t
  assume "P t"
  then show "\<exists>t'. (if k < length (arr t) then f (arr t ! k) k t else Inr t) = Inr t' \<and> P t'"
    using assms(2)[of t k] by (cases "k < length (arr t)") simp_all
qed

lemma point_eta: "\<lparr>px = px (p::point), py = py p\<rparr> = p"
  by (cases p) simp

lemma grow_loop_ok: "ps \<noteq> [] \<Longrightarrow> grow_loop n ps = Inr (ps @ replicate n (last ps))"
proof (induction n arbitrary: ps)
  case 0
  then show ?case by simp
next
  case (Suc n)
  have "grow_loop n (ps @ [last ps]) = Inr ((ps @ [last ps]) @ replicate n (last (ps @ [last ps])))"
    by (rule Suc.IH) simp
  then show ?case using Suc.prems by (simp add: replicate_app_Cons_same point_eta)
qed

lemma Snake_grow_ok:
  "s_positions s \<noteq> [] \<Longrightarrow>
   Snake_grow ty s =
     Inr (s\<lparr>s_positions := s_positions s @
                replicate (if ty = Normal then 5 else 15) (last (s_positions s)),
            s_snakeLength := s_snakeLength s + (if ty = Normal then 5 else 15)\<rparr>)"
  by (simp add: Snake_grow_def grow_loop_ok Let_def)

lemma shrink_loop_take: "shrink_loop n ps = take (length ps - n) ps"
proof (induction n arbitrary: ps)
  case 0
  then show ?case by simp
next
  case (Suc n)
  show ?case
  proof (cases "ps = []")
    case True
    then show ?thesis using Suc by simp
  next
    case False
    then show ?thesis using Suc[of "butlast ps"]
      by (simp add: butlast_conv_take)
  qed
qed

lemma Snake_shrink_length: "10 \<le> s_snakeLength (Snake_shrink s)"
  by (simp add: Snake_shrink_def)

lemma Atom_disintegrate_world:
  "atoms (snd (Atom_disintegrate t a w)) = atoms w"
  "snakes (snd (Atom_disintegrate t a w)) = snakes w"
  "portals (snd (Atom_disintegrate t a w)) = portals w"
  "width (snd (Atom_disintegrate t a w)) = width w"
  "height (snd (Atom_disintegrate t a w)) = height w"
  "next_id (snd (Atom_disintegrate t a w)) = next_id w + (if a_type a = Normal then 5 else 15)"
  "blackHoles (snd (Atom_disintegrate t a w)) =
     blackHoles w @
       (if a_type a = Special then [new_BlackHole (px (a_position a)) (py (a_position a))]
        else [])"
  "fst (Atom_disintegrate t a w) = a\<lparr>a_startTime := t, a_state := 1\<rparr>"
  by (simp_all add: Atom_disintegrate_def Let_def push_photons_frame)

lemma sum_list_map_update:
  fixes f :: "'a \<Rightarrow> nat"
  assumes "k < length xs"
  shows "sum_list (map f (xs[k := v])) + f (xs ! k) = sum_list (map f xs) + f v"
  using assms
proof (induction xs arbitrary: k)
  case Nil
  then show ?case by simp
next
  case (Cons x xs)
  then show ?case by (cases k) (simp_all add: algebra_simps)
qed

lemma counted_eat:
  assumes c: "counted w" and k: "k < length (atoms w)" and alive: "a_state (atoms w ! k) = 0"
    and at: "atoms w' = (atoms w)[k := (atoms w ! k)\<lparr>a_startTime := t, a_state := 1\<rparr>]"
    and n: "next_id w' = next_id w + (if a_type (atoms w ! k) = Normal then 5 else 15)"
    and b: "length (blackHoles w') = length (blackHoles w) + (if a_type (atoms w ! k) = Special then 1 else 0)"
  shows "counted w'"
proof -
  let ?a = "atoms w ! k"
  let ?a' = "?a\<lparr>a_startTime := t, a_state := 1\<rparr>"
  have "sum_list (map emitted (atoms w')) + emitted ?a = sum_list (map emitted (atoms w)) + emitted ?a'"
    unfolding at by (rule sum_list_map_update[OF k])
  moreover have "emitted ?a = 0" "emitted ?a' = (if a_type ?a = Normal then 5 else 15)"
    using alive by (simp_all add: emitted_def)
  ultimately have e: "sum_list (map emitted (atoms w')) = next_id w'"
    using c n by (simp add: counted_def)
  have "sum_list (map holes_due (atoms w')) + holes_due ?a = sum_list (map holes_due (atoms w)) + holes_due ?a'"
    unfolding at by (rule sum_list_map_update[OF k])
  moreover have "holes_due ?a = 0" "holes_due ?a' = (if a_type ?a = Special then 1 else 0)"
    using alive by (simp_all add: holes_due_def)
  ultimately have "sum_list (map holes_due (atoms w')) = length (blackHoles w')"
    using c b by (simp add: counted_def)
  with e show ?thesis by (simp add: counted_def)
qed


lemma photons_ok_cong:
  "photons w' = photons w \<Longrightarrow> next_id w' = next_id w \<Longrightarrow> photons_ok w' = photons_ok w"
  by (simp add: photons_ok_def)

lemma photons_ok_disintegrate:
  assumes "photons_ok w"
  shows "photons_ok (snd (Atom_disintegrate t a w))"
proof -
  let ?a = "a\<lparr>a_startTime := t, a_state := 1\<rparr>"
  let ?n = "if a_type a = Normal then 5 else 15 :: nat"
  let ?w = "snd (Atom_disintegrate t a w)"
  obtain ps where ps: "photons (push_photons ?n ?a w) = photons w @ ps"
    "map p_id ps = [next_id w ..< next_id w + ?n]"
    "\<forall>p \<in> set ps. p_position p = a_position ?a \<and> p_hue p = a_hue ?a \<and>
                        p_type p = a_type ?a \<and> p_life p = 0 \<and> p_maxLife p = 100"
    using push_photons_photons[of ?n ?a w] by blast
  have ph: "photons ?w = photons w @ ps"
    using ps(1) by (cases "a_type a") (simp_all add: Atom_disintegrate_def Let_def)
  have n: "next_id ?w = next_id w + ?n"
    by (simp add: Atom_disintegrate_world)
  have old: "\<forall>p \<in> set (photons w). p_id p < next_id w"
    using assms by (simp add: photons_ok_def list_all_iff)
  have new: "\<forall>p \<in> set ps. next_id w \<le> p_id p \<and> p_id p < next_id w + ?n"
  proof
    fix p
    assume "p \<in> set ps"
    then have "p_id p \<in> set (map p_id ps)" by simp
    then show "next_id w \<le> p_id p \<and> p_id p < next_id w + ?n"
      unfolding ps(2) by simp
  qed
  have "distinct (map p_id ps)" unfolding ps(2) by simp
  moreover have "set (map p_id (photons w)) \<inter> set (map p_id ps) = {}"
    using old new by fastforce
  ultimately have d: "distinct (map p_id (photons ?w))"
    using assms by (simp add: ph photons_ok_def)
  have "list_all (\<lambda>p. p_id p < next_id ?w) (photons ?w)"
    using old new by (auto simp: ph n list_all_iff)
  moreover have "list_all (\<lambda>p. p_maxLife p = 100) (photons ?w)"
    using assms ps(3) by (auto simp: ph photons_ok_def list_all_iff)
  ultimately show ?thesis using d by (simp add: photons_ok_def)
qed

lemma eat_ok:
  assumes pos: "s_positions s \<noteq> []" and k: "k < length (atoms w)" and c: "counted w"
    and ph: "photons_ok w"
  shows "\<exists>s' w'. eat newHead (atoms w ! k) k (s, w) = Inr (s', w') \<and>
           s_positions s' \<noteq> [] \<and> s_snakeLength s \<le> s_snakeLength s' \<and> counted w' \<and>
           photons_ok w' \<and> portals w' = portals w \<and> snakes w' = snakes w \<and>
           length (atoms w') = length (atoms w) \<and> width w' = width w \<and> height w' = height w"
proof (cases "a_state (atoms w ! k) = 0 \<and>
    hypot (px newHead - px (a_position (atoms w ! k))) (py newHead - py (a_position (atoms w ! k)))
      < a_radius (atoms w ! k) + SNAKE_SIZE / 2")
  case False
  then have "eat newHead (atoms w ! k) k (s, w) = Inr (s, w)"
    by (auto simp: eat_def Let_def)
  then show ?thesis using pos c ph by simp
next
  case True
  define atom where "atom = atoms w ! k"
  define t where "t = clock w (clock_calls w)"
  define w1 where "w1 = w\<lparr>clock_calls := clock_calls w + 1\<rparr>"
  define r where "r = Atom_disintegrate t atom w1"
  define s' where "s' = s\<lparr>s_positions := s_positions s @
                replicate (if a_type atom = Normal then 5 else 15) (last (s_positions s)),
            s_snakeLength := s_snakeLength s + (if a_type atom = Normal then 5 else 15),
            s_target := None\<rparr>"
  define w' where "w' = (snd r)\<lparr>atoms := (atoms (snd r))[k := fst r]\<rparr>"
  have ty: "a_type (fst r) = a_type atom"
    by (simp add: r_def Atom_disintegrate_world)
  have eq: "eat newHead atom k (s, w) = Inr (s', w')"
    using True
    by (simp add: eat_def Let_def performance_now_def case_prod_beta Snake_grow_ok[OF pos]
        Atom_disintegrate_world atom_def t_def w1_def r_def w'_def s'_def)
  have at: "atoms w' = (atoms w)[k := (atoms w ! k)\<lparr>a_startTime := t, a_state := 1\<rparr>]"
    by (simp add: w'_def r_def Atom_disintegrate_world w1_def atom_def)
  have n: "next_id w' = next_id w + (if a_type (atoms w ! k) = Normal then 5 else 15)"
    by (simp add: w'_def r_def Atom_disintegrate_world w1_def atom_def)
  have b: "length (blackHoles w') =
      length (blackHoles w) + (if a_type (atoms w ! k) = Special then 1 else 0)"
    by (simp add: w'_def r_def Atom_disintegrate_world w1_def atom_def)
  have cw: "counted w'"
    using True by (intro counted_eat[OF c k _ at n b]) simp
  have fr: "portals w' = portals w" "snakes w' = snakes w" "width w' = width w"
    "height w' = height w"
    by (simp_all add: w'_def r_def Atom_disintegrate_world w1_def)
  have "photons_ok w1" using ph by (simp add: w1_def photons_ok_def)
  then have "photons_ok (snd r)" unfolding r_def by (rule photons_ok_disintegrate)
  then have pw: "photons_ok w'" by (simp add: w'_def photons_ok_def)
  have "s_positions s' \<noteq> []" "s_snakeLength s \<le> s_snakeLength s'"
    using pos by (simp_all add: s'_def)
  then show ?thesis using eq cw pw fr at by (simp add: atom_def)
qed

lemma eat_loop_ok:
  assumes pos: "s_positions s \<noteq> []" and c: "counted w" and ph: "photons_ok w"
  shows "\<exists>s' w'. forEach_in (\<lambda>sw. atoms (snd sw)) (eat newHead) (s, w) = Inr (s', w') \<and>
           s_positions s' \<noteq> [] \<and> s_snakeLength s \<le> s_snakeLength s' \<and> counted w' \<and>
           photons_ok w' \<and> portals w' = portals w \<and> snakes w' = snakes w \<and>
           length (atoms w') = length (atoms w) \<and> width w' = width w \<and> height w' = height w"
proof -
  let ?P = "\<lambda>sw :: snake \<times> world. s_positions (fst sw) \<noteq> [] \<and> s_snakeLength s \<le> s_snakeLength (fst sw) \<and>
           counted (snd sw) \<and> photons_ok (snd sw) \<and> portals (snd sw) = portals w \<and> snakes (snd sw) = snakes w \<and>
           length (atoms (snd sw)) = length (atoms w) \<and> width (snd sw) = width w \<and>
           height (snd sw) = height w"
  have "\<exists>sw'. forEach_in (\<lambda>sw. atoms (snd sw)) (eat newHead) (s, w) = Inr sw' \<and> ?P sw'"
  proof (rule forEach_in_total[where P = ?P])
    show "?P (s, w)" using pos c ph by simp
  next
    fix k t
    assume P: "?P t" and k: "k < length (atoms (snd t))"
    obtain s1 w1 where t: "t = (s1, w1)" by (cases t)
    from eat_ok[of s1 k w1 newHead] P k t
    obtain s' w' where "eat newHead (atoms w1 ! k) k (s1, w1) = Inr (s', w')"
      "s_positions s' \<noteq> []" "s_snakeLength s1 \<le> s_snakeLength s'" "counted w'"
      "photons_ok w'" "portals w' = portals w1" "snakes w' = snakes w1"
      "length (atoms w') = length (atoms w1)" "width w' = width w1" "height w' = height w1"
      by auto
    then show "\<exists>t'. eat newHead (atoms (snd t) ! k) k t = Inr t' \<and> ?P t'"
      using P t by auto
  qed
  then show ?thesis by auto
qed

lemma hole_loop_ok:
  "10 \<le> s_snakeLength s \<Longrightarrow>
   \<exists>s'. forEach (hit_hole newHead) holes s = Inr s' \<and> 10 \<le> s_snakeLength s'"
proof (rule forEach_total[where P = "\<lambda>s :: snake. 10 \<le> s_snakeLength s"])
  fix x and t :: snake
  assume "10 \<le> s_snakeLength t"
  then show "\<exists>t'. hit_hole newHead x t = Inr t' \<and> 10 \<le> s_snakeLength t'"
    by (simp add: hit_hole_def Let_def Snake_shrink_length)
qed

lemma portals_okD:
  "portals_ok ps \<Longrightarrow> q \<in> set ps \<Longrightarrow> \<exists>j. q_partner q = Some j \<and> j < length ps"
  by (auto simp: portals_ok_def list_all_iff split: option.splits)

lemma Snake_portal_ok:
  assumes "portals_ok ps" and "q \<in> set ps"
  shows "\<exists>h' w'. Snake_portal ps q (h, w) = Inr (h', w') \<and>
           atoms w' = atoms w \<and> snakes w' = snakes w \<and> portals w' = portals w \<and>
           blackHoles w' = blackHoles w \<and> next_id w' = next_id w \<and> photons w' = photons w \<and>
           width w' = width w \<and> height w' = height w"
proof -
  from portals_okD[OF assms] obtain j where "q_partner q = Some j" "j < length ps" by blast
  then show ?thesis
    by (simp add: Snake_portal_def Let_def random_def)
qed

lemma Snake_portal_loop_ok:
  assumes "portals_ok ps" and "set qs \<subseteq> set ps"
  shows "\<exists>h' w'. forEach (Snake_portal ps) qs (h, w) = Inr (h', w') \<and>
           atoms w' = atoms w \<and> snakes w' = snakes w \<and> portals w' = portals w \<and>
           blackHoles w' = blackHoles w \<and> next_id w' = next_id w \<and> photons w' = photons w \<and>
           width w' = width w \<and> height w' = height w"
proof -
  let ?P = "\<lambda>hw :: point \<times> world. atoms (snd hw) = atoms w \<and> snakes (snd hw) = snakes w \<and>
           portals (snd hw) = portals w \<and> photons (snd hw) = photons w \<and>
           blackHoles (snd hw) = blackHoles w \<and> next_id (snd hw) = next_id w \<and>
           width (snd hw) = width w \<and> height (snd hw) = height w"
  have "\<exists>hw'. forEach (Snake_portal ps) qs (h, w) = Inr hw' \<and> ?P hw'"
  proof (rule forEach_total[where P = ?P])
    show "?P (h, w)" by simp
  next
    fix x t
    assume x: "x \<in> set qs" and P: "?P t"
    obtain h1 w1 where t: "t = (h1, w1)" by (cases t)
    from x assms(2) have "x \<in> set ps" by blast
    from Snake_portal_ok[OF assms(1) this, of h1 w1] P t
    show "\<exists>t'. Snake_portal ps x t = Inr t' \<and> ?P t'" by auto
  qed
  then show ?thesis by auto
qed


lemma Snake_steer_keeps:
  "s_positions (fst (Snake_steer this head w)) = s_positions this"
  "s_snakeLength (fst (Snake_steer this head w)) = s_snakeLength this"
  "atoms (snd (Snake_steer this head w)) = atoms w"
  "snakes (snd (Snake_steer this head w)) = snakes w"
  "portals (snd (Snake_steer this head w)) = portals w"
  "blackHoles (snd (Snake_steer this head w)) = blackHoles w"
  "photons (snd (Snake_steer this head w)) = photons w"
  "next_id (snd (Snake_steer this head w)) = next_id w"
  "width (snd (Snake_steer this head w)) = width w"
  "height (snd (Snake_steer this head w)) = height w"
  by (simp_all add: Snake_steer_def Let_def random_def)

lemma Snake_unshift_ok:
  "10 \<le> s_snakeLength s \<Longrightarrow> snake_ok (Snake_unshift h s)"
  by (cases "s_positions s") (auto simp: Snake_unshift_def snake_ok_def Let_def)

lemma Snake_update_ok:
  assumes ok: "snake_ok this" and po: "portals_ok (portals w)" and c: "counted w"
    and ph: "photons_ok w"
  shows "\<exists>s' w'. Snake_update this w = Inr (s', w') \<and> snake_ok s' \<and> counted w' \<and>
           photons_ok w' \<and> portals w' = portals w \<and> snakes w' = snakes w \<and>
           length (atoms w') = length (atoms w) \<and> width w' = width w \<and> height w' = height w"
proof -
  from ok obtain head rest where pos: "s_positions this = head # rest"
    by (cases "s_positions this") (auto simp: snake_ok_def)
  define s2 where "s2 = fst (Snake_steer this head w)"
  define w2 where "w2 = snd (Snake_steer this head w)"
  define h where "h = Snake_newHead s2 head w2"
  have st: "Snake_steer this head w = (s2, w2)" by (simp add: s2_def w2_def)
  have s2: "s_positions s2 \<noteq> []" "10 \<le> s_snakeLength s2"
    using ok pos by (simp_all add: s2_def Snake_steer_keeps snake_ok_def)
  have c2: "counted w2"
    using c by (simp add: counted_def w2_def Snake_steer_keeps)
  have ph2: "photons_ok w2"
    using ph by (simp add: photons_ok_def w2_def Snake_steer_keeps)
  from eat_loop_ok[OF s2(1) c2 ph2, of h] obtain s3 w3 where
    l1: "forEach_in (\<lambda>sw. atoms (snd sw)) (eat h) (s2, w2) = Inr (s3, w3)"
    and s3: "s_positions s3 \<noteq> []" "s_snakeLength s2 \<le> s_snakeLength s3"
    and ph3: "photons_ok w3"
    and w3: "counted w3" "portals w3 = portals w2" "snakes w3 = snakes w2"
      "length (atoms w3) = length (atoms w2)" "width w3 = width w2" "height w3 = height w2"
    by blast
  have "10 \<le> s_snakeLength s3" using s2(2) s3(2) by simp
  from hole_loop_ok[OF this, of h "blackHoles w3"] obtain s4 where
    l2: "forEach (hit_hole h) (blackHoles w3) s3 = Inr s4" and s4: "10 \<le> s_snakeLength s4"
    by blast
  have po3: "portals_ok (portals w3)"
    using po w3(2) by (simp add: w2_def Snake_steer_keeps)
  from Snake_portal_loop_ok[OF po3 subset_refl, of h w3] obtain h' w4 where
    l3: "forEach (Snake_portal (portals w3)) (portals w3) (h, w3) = Inr (h', w4)"
    and w4: "atoms w4 = atoms w3" "snakes w4 = snakes w3" "portals w4 = portals w3"
      "blackHoles w4 = blackHoles w3" "next_id w4 = next_id w3"
      "width w4 = width w3" "height w4 = height w3"
    and ph4: "photons w4 = photons w3"
    by blast
  have eq: "Snake_update this w = Inr (Snake_unshift h' s4, w4)"
    by (simp add: Snake_update_def pos st h_def[symmetric] l1 l2 l3)
  have "counted w4" using w3(1) w4 by (simp add: counted_def)
  moreover have "photons_ok w4" using ph3 ph4 w4 by (simp add: photons_ok_def)
  moreover have "snake_ok (Snake_unshift h' s4)" by (rule Snake_unshift_ok[OF s4])
  ultimately show ?thesis
    using eq w3 w4 by (simp add: w2_def Snake_steer_keeps)
qed


section \<open>Frames and runs\<close>

lemma Photon_portal_ok:
  assumes "portals_ok ps" and "q \<in> set ps"
  shows "\<exists>r. Photon_portal ps q (p, w) = Inr r"
proof -
  from portals_okD[OF assms] obtain j where "q_partner q = Some j" "j < length ps" by blast
  then show ?thesis
    by (simp add: Photon_portal_def Let_def random_def)
qed

lemma Photon_update_ok:
  assumes "portals_ok (portals w)"
  shows "\<exists>p' w'. Photon_update p w = Inr (p', w')"
proof -
  have "\<exists>r. forEach (Photon_portal (portals w)) (portals w) (p, w) = Inr r \<and> True"
  proof (rule forEach_total[where P = "\<lambda>_. True"])
    fix x and t :: "photon \<times> world"
    assume "x \<in> set (portals w)"
    from Photon_portal_ok[OF assms this, of "fst t" "snd t"]
    show "\<exists>t'. Photon_portal (portals w) x t = Inr t' \<and> True" by simp
  qed simp
  then obtain p1 w1 where "forEach (Photon_portal (portals w)) (portals w) (p, w) = Inr (p1, w1)"
    by auto
  then show ?thesis by (simp add: Photon_update_def Let_def)
qed

lemma world_ok_cong:
  "atoms w' = atoms w \<Longrightarrow> next_id w' = next_id w \<Longrightarrow>
   length (blackHoles w') = length (blackHoles w) \<Longrightarrow> portals w' = portals w \<Longrightarrow>
   snakes w' = snakes w \<Longrightarrow> photons_ok w' = photons_ok w \<Longrightarrow> world_ok w' = world_ok w"
  by (simp add: world_ok_def counted_def)

lemma world_okI:
  "portals_ok (portals w) \<Longrightarrow> list_all snake_ok (snakes w) \<Longrightarrow> counted w \<Longrightarrow>
   photons_ok w \<Longrightarrow> world_ok w"
  by (simp add: world_ok_def)

lemma world_okD:
  assumes "world_ok w"
  shows "portals_ok (portals w)" "list_all snake_ok (snakes w)" "counted w" "photons_ok w"
  using assms by (simp_all add: world_ok_def)

lemma attract_keeps: "p_id (attract h p) = p_id p" "p_maxLife (attract h p) = p_maxLife p"
  by (simp_all add: attract_def Let_def)

lemma distinct_take_drop_Suc: "distinct ys \<Longrightarrow> distinct (take n ys @ drop (Suc n) ys)"
proof -
  assume d: "distinct ys"
  have "set (take n ys) \<inter> set (drop (Suc n) ys) = {}"
    by (rule set_take_disj_set_drop_if_distinct[OF d]) simp
  then show ?thesis using d by simp
qed

lemma splice1_keeps:
  "list_all P xs \<Longrightarrow> list_all P (splice1 xs k)"
  "distinct (map f xs) \<Longrightarrow> distinct (map f (splice1 xs k))"
proof -
  define n where "n = nat (if k < 0 then max (int (length xs) + k) 0 else min k (int (length xs)))"
  have eq: "splice1 xs k = take n xs @ drop (Suc n) xs"
    by (simp add: splice1_def Let_def n_def)
  show "list_all P xs \<Longrightarrow> list_all P (splice1 xs k)"
    unfolding eq by (auto simp: list_all_iff dest: in_set_takeD in_set_dropD)
  assume "distinct (map f xs)"
  then have "distinct (take n (map f xs) @ drop (Suc n) (map f xs))"
    by (rule distinct_take_drop_Suc)
  then show "distinct (map f (splice1 xs k))"
    unfolding eq by (simp add: take_map drop_map)
qed

lemma store_photon_keeps:
  "list_all P qs \<Longrightarrow> P p \<Longrightarrow> list_all P (store_photon p qs)"
  by (induction qs) (simp_all add: store_photon_def)

lemma same_shape_refl: "same_shape w w"
  by (simp add: same_shape_def)

lemma same_shape_trans: "same_shape w w1 \<Longrightarrow> same_shape w1 w2 \<Longrightarrow> same_shape w w2"
  by (simp add: same_shape_def)

lemma frame_hole_ok:
  assumes "world_ok w1" and "same_shape w w1"
  shows "\<exists>out' w2. frame_hole hole k (out, w1) = Inr (out', w2) \<and> world_ok w2 \<and> same_shape w w2"
proof -
  let ?h = "fst (BlackHole_update hole w1)"
  let ?w = "(snd (BlackHole_update hole w1))\<lparr>blackHoles := (blackHoles (snd (BlackHole_update hole w1)))[k := ?h]\<rparr>"
  have eq: "frame_hole hole k (out, w1) = Inr (out @ BlackHole_draw ?h, ?w)"
    by (simp add: frame_hole_def case_prod_beta)
  have "world_ok ?w = world_ok w1"
    by (rule world_ok_cong)
      (simp_all add: BlackHole_update_def Let_def photons_ok_def attract_keeps comp_def
        list.pred_map)
  moreover have "same_shape w1 ?w"
    by (simp add: same_shape_def BlackHole_update_def Let_def)
  ultimately show ?thesis using eq assms same_shape_trans by blast
qed

lemma Atom_draw_keeps:
  "emitted (snd (Atom_draw t a)) = emitted a" "holes_due (snd (Atom_draw t a)) = holes_due a"
  by (simp_all add: Atom_draw_def Let_def emitted_def holes_due_def)

lemma map_update_same: "f v = f (xs ! k) \<Longrightarrow> map f (xs[k := v]) = map f xs"
  by (induction xs arbitrary: k) (auto split: nat.splits)

lemma frame_atom_ok:
  assumes "world_ok w1" and "same_shape w w1"
  shows "\<exists>out' w2. frame_atom t (atoms w1 ! k) k (out, w1) = Inr (out', w2) \<and>
           world_ok w2 \<and> same_shape w w2"
proof -
  let ?a = "snd (Atom_draw t (atoms w1 ! k))"
  let ?w = "w1\<lparr>atoms := (atoms w1)[k := ?a]\<rparr>"
  have eq: "frame_atom t (atoms w1 ! k) k (out, w1) =
      Inr (out @ fst (Atom_draw t (atoms w1 ! k)), ?w)"
    by (simp add: frame_atom_def case_prod_beta)
  have "map emitted (atoms ?w) = map emitted (atoms w1)"
    "map holes_due (atoms ?w) = map holes_due (atoms w1)"
    by (simp_all add: map_update_same Atom_draw_keeps)
  then have "counted ?w" using world_okD(3)[OF assms(1)] by (simp add: counted_def)
  moreover have "photons_ok ?w = photons_ok w1" by (rule photons_ok_cong) simp_all
  ultimately have "world_ok ?w"
    using world_okD[OF assms(1)] by (intro world_okI) simp_all
  moreover have "same_shape w1 ?w" by (simp add: same_shape_def)
  ultimately show ?thesis using eq assms(2) same_shape_trans by blast
qed

lemma list_all_update: "list_all P xs \<Longrightarrow> P v \<Longrightarrow> list_all P (xs[k := v])"
  by (induction xs arbitrary: k) (auto split: nat.splits)

lemma frame_snake_ok:
  assumes "world_ok w1" and "same_shape w w1" and "k < length (snakes w1)"
  shows "\<exists>out' w2. frame_snake (snakes w1 ! k) k (out, w1) = Inr (out', w2) \<and>
           world_ok w2 \<and> same_shape w w2"
proof -
  have sk: "snake_ok (snakes w1 ! k)"
    using assms(1,3) by (simp add: world_ok_def list_all_length)
  from Snake_update_ok[OF sk world_okD(1)[OF assms(1)] world_okD(3)[OF assms(1)]
      world_okD(4)[OF assms(1)]] obtain s' w' where
    u: "Snake_update (snakes w1 ! k) w1 = Inr (s', w')" and s': "snake_ok s'"
    and ph': "photons_ok w'"
    and w': "counted w'" "portals w' = portals w1" "snakes w' = snakes w1"
      "length (atoms w') = length (atoms w1)" "width w' = width w1" "height w' = height w1"
    by blast
  let ?w = "w'\<lparr>snakes := (snakes w')[k := s']\<rparr>"
  have eq: "frame_snake (snakes w1 ! k) k (out, w1) = Inr (out @ Snake_draw s', ?w)"
    by (simp add: frame_snake_def u)
  have "list_all snake_ok (snakes ?w)"
    using assms(1) w'(3) s' by (simp add: world_ok_def list_all_update)
  moreover have "counted ?w" using w'(1) by (simp add: counted_def)
  moreover have "photons_ok ?w" using ph' by (simp add: photons_ok_def)
  ultimately have "world_ok ?w"
    using world_okD(1)[OF assms(1)] w'(2) by (intro world_okI) simp_all
  moreover have "same_shape w1 ?w" using w' by (simp add: same_shape_def)
  ultimately show ?thesis using eq assms(2) same_shape_trans by blast
qed

lemma Photon_update_photons_ok:
  assumes u: "Photon_update this w = Inr (p', w')" and ph: "photons_ok w"
    and m: "this \<in> set (photons w)"
  shows "photons_ok w'"
proof -
  note r = Photon_update_result[OF u]
  let ?qs = "store_photon p' (photons w)"
  have th: "p_id this < next_id w" "p_maxLife this = 100"
    using ph m by (auto simp: photons_ok_def list_all_iff)
  have d: "distinct (map p_id ?qs)"
    using ph by (simp add: map_id_store_photon photons_ok_def)
  have a: "list_all (\<lambda>p. p_id p < next_id w) ?qs"
    using ph th r by (intro store_photon_keeps) (simp_all add: photons_ok_def)
  have b: "list_all (\<lambda>p. p_maxLife p = 100) ?qs"
    using ph th r by (intro store_photon_keeps) (simp_all add: photons_ok_def)
  show ?thesis
  proof (cases "removal_due p' w")
    case True
    then have "photons w' = splice1 ?qs (indexOf ?qs (p_id this))" using r by simp
    then show ?thesis using d a b r by (simp add: photons_ok_def splice1_keeps)
  next
    case False
    then have "photons w' = ?qs" using r by simp
    then show ?thesis using d a b r by (simp add: photons_ok_def)
  qed
qed

lemma frame_photon_ok:
  assumes "world_ok w1" and "same_shape w w1" and "k < length (photons w1)"
  shows "\<exists>out' w2. frame_photon (photons w1 ! k) k (out, w1) = Inr (out', w2) \<and>
           world_ok w2 \<and> same_shape w w2"
proof -
  let ?p = "photons w1 ! k"
  from assms(1) have "portals_ok (portals w1)" by (simp add: world_ok_def)
  from Photon_update_ok[OF this, of ?p] obtain p' w' where u: "Photon_update ?p w1 = Inr (p', w')"
    by blast
  note r = Photon_update_result[OF u]
  have eq: "frame_photon ?p k (out, w1) = Inr (out @ Photon_draw p', w')"
    by (simp add: frame_photon_def u)
  have "photons_ok w1" using assms(1) by (simp add: world_ok_def)
  then have "photons_ok w'"
    using assms(3) by (intro Photon_update_photons_ok[OF u]) simp_all
  moreover have "counted w'" using world_okD(3)[OF assms(1)] r by (simp add: counted_def)
  ultimately have "world_ok w'"
    using world_okD[OF assms(1)] r by (intro world_okI) simp_all
  moreover have "same_shape w1 w'" using r by (simp add: same_shape_def)
  ultimately show ?thesis using eq assms same_shape_trans by blast
qed

lemma frame_portal_ok: "frame_portal q (out, w1) = Inr (out @ Portal_draw q, w1)"
  by (simp add: frame_portal_def)


lemma animate_ok:
  assumes "world_ok w"
  shows "\<exists>out w'. animate w = Inr (out, w') \<and> world_ok w' \<and> same_shape w w'"
proof -
  let ?P = "\<lambda>cw :: cmd list \<times> world. world_ok (snd cw) \<and> same_shape w (snd cw)"
  have "\<exists>cw. forEach_in (\<lambda>cw. blackHoles (snd cw)) frame_hole ([], w) = Inr cw \<and> ?P cw"
  proof (rule forEach_in_total[where P = ?P])
    show "?P ([], w)" using assms by (simp add: same_shape_refl)
  next
    fix k and t :: "cmd list \<times> world"
    assume "?P t"
    then show "\<exists>t'. frame_hole (blackHoles (snd t) ! k) k t = Inr t' \<and> ?P t'"
      using frame_hole_ok[of "snd t" w "blackHoles (snd t) ! k" k "fst t"] by auto
  qed
  then obtain out1 w1 where
    l1: "forEach_in (\<lambda>cw. blackHoles (snd cw)) frame_hole ([], w) = Inr (out1, w1)"
    and p1: "world_ok w1" "same_shape w w1"
    by auto
  define t where "t = clock w1 (clock_calls w1)"
  define w2 where "w2 = w1\<lparr>clock_calls := clock_calls w1 + 1\<rparr>"
  have pn: "performance_now w1 = (t, w2)"
    by (simp add: performance_now_def t_def w2_def)
  have "photons_ok w2 = photons_ok w1" by (rule photons_ok_cong) (simp_all add: w2_def)
  then have "world_ok w2 = world_ok w1" by (intro world_ok_cong) (simp_all add: w2_def)
  then have p2: "world_ok w2" "same_shape w w2"
    using p1 by (simp_all add: w2_def same_shape_def)
  have "\<exists>cw. forEach_in (\<lambda>cw. atoms (snd cw)) (frame_atom t) (out1, w2) = Inr cw \<and> ?P cw"
  proof (rule forEach_in_total[where P = ?P])
    show "?P (out1, w2)" using p2 by simp
  next
    fix k and u :: "cmd list \<times> world"
    assume "?P u"
    then show "\<exists>t'. frame_atom t (atoms (snd u) ! k) k u = Inr t' \<and> ?P t'"
      using frame_atom_ok[of "snd u" w t k "fst u"] by auto
  qed
  then obtain cw3 where
    l3: "forEach_in (\<lambda>cw. atoms (snd cw)) (frame_atom t) (out1, w2) = Inr cw3"
    and p3: "?P cw3"
    by auto
  have "\<exists>cw. forEach_in (\<lambda>cw. snakes (snd cw)) frame_snake cw3 = Inr cw \<and> ?P cw"
  proof (rule forEach_in_total[where P = ?P])
    show "?P cw3" by (rule p3)
  next
    fix k and u :: "cmd list \<times> world"
    assume "?P u" and "k < length (snakes (snd u))"
    then show "\<exists>t'. frame_snake (snakes (snd u) ! k) k u = Inr t' \<and> ?P t'"
      using frame_snake_ok[of "snd u" w k "fst u"] by auto
  qed
  then obtain cw4 where
    l4: "forEach_in (\<lambda>cw. snakes (snd cw)) frame_snake cw3 = Inr cw4" and p4: "?P cw4"
    by auto
  have "\<exists>cw. forEach_in (\<lambda>cw. photons (snd cw)) frame_photon cw4 = Inr cw \<and> ?P cw"
  proof (rule forEach_in_total[where P = ?P])
    show "?P cw4" by (rule p4)
  next
    fix k and u :: "cmd list \<times> world"
    assume "?P u" and "k < length (photons (snd u))"
    then show "\<exists>t'. frame_photon (photons (snd u) ! k) k u = Inr t' \<and> ?P t'"
      using frame_photon_ok[of "snd u" w k "fst u"] by auto
  qed
  then obtain cw5 where l5: "photon_pass cw4 = Inr cw5" and p5: "?P cw5"
    by (auto simp: photon_pass_def)
  have "\<exists>cw. forEach frame_portal (portals (snd cw5)) cw5 = Inr cw \<and> ?P cw"
  proof (rule forEach_total[where P = ?P])
    show "?P cw5" by (rule p5)
  next
    fix x and u :: "cmd list \<times> world"
    assume "?P u"
    then show "\<exists>t'. frame_portal x u = Inr t' \<and> ?P t'"
      using frame_portal_ok[of x "fst u" "snd u"] by simp
  qed
  then obtain out6 w6 where
    l6: "forEach frame_portal (portals (snd cw5)) cw5 = Inr (out6, w6)"
    and p6: "world_ok w6" "same_shape w w6"
    by auto
  have "animate w = Inr (out6, w6)"
    by (simp add: animate_def l1 pn l3 l4 l5 l6)
  then show ?thesis using p6 by blast
qed

lemma create_atoms_ok:
  "snakes (create_atoms n w) = snakes w \<and> portals (create_atoms n w) = portals w \<and>
   photons (create_atoms n w) = photons w \<and> blackHoles (create_atoms n w) = blackHoles w \<and>
   next_id (create_atoms n w) = next_id w \<and>
   width (create_atoms n w) = width w \<and> height (create_atoms n w) = height w \<and>
   length (atoms (create_atoms n w)) = length (atoms w) + n \<and>
   sum_list (map emitted (atoms (create_atoms n w))) = sum_list (map emitted (atoms w)) \<and>
   sum_list (map holes_due (atoms (create_atoms n w))) = sum_list (map holes_due (atoms w))"
proof (induction n arbitrary: w)
  case 0
  then show ?case by simp
next
  case (Suc n)
  define wa where "wa = snd (random w)"
  define wb where "wb = snd (random wa)"
  define a where "a = fst (new_Atom (fst (random w) * width wb) (fst (random wa) * height wb) wb)"
  define wc where "wc = snd (new_Atom (fst (random w) * width wb) (fst (random wa) * height wb) wb)"
  define w3 where "w3 = wc\<lparr>atoms := atoms wc @ [a]\<rparr>"
  have eq: "create_atoms (Suc n) w = create_atoms n w3"
    by (simp add: case_prod_beta wa_def wb_def a_def wc_def w3_def)
  have "a_state a = 0" by (simp add: a_def new_Atom_def random_def case_prod_beta)
  then have "emitted a = 0" "holes_due a = 0" by (simp_all add: emitted_def holes_due_def)
  moreover have "snakes w3 = snakes w" "portals w3 = portals w" "photons w3 = photons w"
    "blackHoles w3 = blackHoles w" "next_id w3 = next_id w" "width w3 = width w"
    "height w3 = height w" "atoms w3 = atoms w @ [a]"
    by (simp_all add: w3_def wc_def wb_def wa_def new_Atom_def random_def case_prod_beta)
  ultimately show ?case unfolding eq using Suc[of w3] by simp
qed

lemma new_Snake_ok:
  "snake_ok (fst (new_Snake w))"
  "s_snakeLength (fst (new_Snake w)) = 40"
  "snd (new_Snake w) = w\<lparr>rnd_calls := rnd_calls w + 4\<rparr>"
  by (simp_all add: new_Snake_def random_def case_prod_beta Let_def snake_ok_def SNAKE_LENGTH_def)

lemma create_snakes_ok:
  "atoms (create_snakes n w) = atoms w \<and> portals (create_snakes n w) = portals w \<and>
   photons (create_snakes n w) = photons w \<and> blackHoles (create_snakes n w) = blackHoles w \<and>
   next_id (create_snakes n w) = next_id w \<and>
   width (create_snakes n w) = width w \<and> height (create_snakes n w) = height w \<and>
   length (snakes (create_snakes n w)) = length (snakes w) + n \<and>
   (list_all snake_ok (snakes w) \<longrightarrow> list_all snake_ok (snakes (create_snakes n w)))"
proof (induction n arbitrary: w)
  case 0
  then show ?case by simp
next
  case (Suc n)
  define w1 where "w1 = w\<lparr>rnd_calls := rnd_calls w + 4, snakes := snakes w @ [fst (new_Snake w)]\<rparr>"
  have eq: "create_snakes (Suc n) w = create_snakes n w1"
    by (simp add: case_prod_beta new_Snake_ok w1_def)
  show ?case unfolding eq using Suc[of w1] by (simp add: w1_def new_Snake_ok)
qed

lemma create_portals_ok:
  "atoms (create_portals n w) = atoms w \<and> snakes (create_portals n w) = snakes w \<and>
   photons (create_portals n w) = photons w \<and> blackHoles (create_portals n w) = blackHoles w \<and>
   next_id (create_portals n w) = next_id w \<and>
   width (create_portals n w) = width w \<and> height (create_portals n w) = height w \<and>
   length (portals (create_portals n w)) = length (portals w) + n"
proof (induction n arbitrary: w)
  case 0
  then show ?case by simp
next
  case (Suc n)
  define w2 where "w2 = w\<lparr>rnd_calls := rnd_calls w + 2,
     portals := portals w @ [new_Portal (rnd w (rnd_calls w) * width w)
        (rnd w (rnd_calls w + 1) * height w)]\<rparr>"
  have eq: "create_portals (Suc n) w = create_portals n w2"
    by (simp add: case_prod_beta random_def w2_def)
  show ?case unfolding eq using Suc[of w2] by (simp add: w2_def)
qed

lemma portals_ok_assign: "portals_ok (assign_partners 0 ps)"
proof -
  have "\<forall>k < length ps. (case q_partner (assign_partners 0 ps ! k) of None \<Rightarrow> False
            | Some j \<Rightarrow> j < length (assign_partners 0 ps))"
  proof (intro allI impI)
    fix k
    assume k: "k < length ps"
    then have "0 < length ps" by auto
    then have "(k + 1) mod length ps < length ps" by simp
    then show "case q_partner (assign_partners 0 ps ! k) of None \<Rightarrow> False
            | Some j \<Rightarrow> j < length (assign_partners 0 ps)"
      using k by (simp add: nth_assign_partners length_assign_partners)
  qed
  then show ?thesis
    by (simp add: portals_ok_def list_all_length length_assign_partners)
qed

lemma init_ok:
  assumes "next_id w = 0"
  shows "\<exists>out w'. init iw ih w = Inr (out, w') \<and> world_ok w' \<and>
           length (snakes w') = NUM_SNAKES \<and> length (atoms w') = NUM_ATOMS \<and>
           length (portals w') = NUM_PORTALS \<and> ring (portals w')"
proof -
  define w1 where "w1 = (resizeCanvas iw ih w)\<lparr>atoms := [], snakes := [], photons := [],
     blackHoles := [], portals := []\<rparr>"
  define w2 where "w2 = create_atoms NUM_ATOMS w1"
  define w3 where "w3 = create_snakes NUM_SNAKES w2"
  define w4 where "w4 = create_portals NUM_PORTALS w3"
  define w5 where "w5 = w4\<lparr>portals := assign_partners 0 (portals w4)\<rparr>"
  have eq: "init iw ih w = animate w5"
    by (simp add: init_def Let_def w1_def w2_def w3_def w4_def w5_def)
  have f1: "next_id w1 = 0" "atoms w1 = []" "snakes w1 = []" "blackHoles w1 = []" "portals w1 = []"
    "photons w1 = []"
    using assms by (simp_all add: w1_def resizeCanvas_def)
  note a2 = create_atoms_ok[of NUM_ATOMS w1, folded w2_def]
  note a3 = create_snakes_ok[of NUM_SNAKES w2, folded w3_def]
  note a4 = create_portals_ok[of NUM_PORTALS w3, folded w4_def]
  have c: "counted w5"
    using a2 a3 a4 f1 by (simp add: counted_def w5_def)
  have s: "list_all snake_ok (snakes w5)"
    using a2 a3 a4 f1 by (simp add: w5_def)
  have p: "portals_ok (portals w5)"
    by (simp add: w5_def portals_ok_assign)
  have "photons_ok w5"
    using a2 a3 a4 f1 by (simp add: photons_ok_def w5_def)
  then have "world_ok w5" using c s p by (simp add: world_ok_def)
  from animate_ok[OF this] obtain out w' where
    an: "animate w5 = Inr (out, w')" and w': "world_ok w'" "same_shape w5 w'"
    by blast
  have "length (snakes w5) = NUM_SNAKES" "length (atoms w5) = NUM_ATOMS"
    "length (portals w5) = NUM_PORTALS"
    using a2 a3 a4 f1 by (simp_all add: w5_def length_assign_partners)
  moreover have "ring (portals w5)" by (simp add: w5_def ring_assign_partners)
  ultimately show ?thesis using eq an w' by (simp add: same_shape_def)
qed

lemma addSnakeAt_ok:
  assumes "world_ok w"
  shows "world_ok (addSnakeAt x0 y0 w) \<and> length (snakes (addSnakeAt x0 y0 w)) = length (snakes w) + 1 \<and>
         atoms (addSnakeAt x0 y0 w) = atoms w \<and> portals (addSnakeAt x0 y0 w) = portals w"
proof -
  define s where "s = (fst (new_Snake w))\<lparr>s_positions :=
      replicate (nat (s_snakeLength (fst (new_Snake w)))) \<lparr>px = x0, py = y0\<rparr>\<rparr>"
  define w' where "w' = w\<lparr>rnd_calls := rnd_calls w + 4, snakes := snakes w @ [s]\<rparr>"
  have eq: "addSnakeAt x0 y0 w = w'"
    by (simp add: addSnakeAt_def case_prod_beta new_Snake_ok s_def w'_def)
  have "snake_ok s"
    by (simp add: s_def new_Snake_ok snake_ok_def)
  then have "list_all snake_ok (snakes w')"
    using world_okD(2)[OF assms] by (simp add: w'_def)
  moreover have "counted w'" using world_okD(3)[OF assms] by (simp add: counted_def w'_def)
  moreover have "photons_ok w'" using world_okD(4)[OF assms] by (simp add: photons_ok_def w'_def)
  moreover have "portals_ok (portals w')" using world_okD(1)[OF assms] by (simp add: w'_def)
  ultimately have "world_ok w'" by (intro world_okI)
  then show ?thesis unfolding eq by (simp add: w'_def)
qed

lemma step_ok:
  assumes "world_ok w"
  shows "\<exists>w'. step e w = Inr w' \<and> world_ok w' \<and>
           length (snakes w') = length (snakes w) + clicks [e] \<and>
           length (atoms w') = length (atoms w) \<and> portals w' = portals w"
proof (cases e)
  case Frame
  from animate_ok[OF assms] obtain out w' where "animate w = Inr (out, w')" "world_ok w'"
    "same_shape w w'" by blast
  then show ?thesis using Frame by (simp add: same_shape_def)
next
  case (Click x0 y0)
  then show ?thesis using addSnakeAt_ok[OF assms, of x0 y0] by simp
next
  case (Resize iw ih)
  have "photons_ok (resizeCanvas iw ih w) = photons_ok w"
    by (rule photons_ok_cong) (simp_all add: resizeCanvas_def)
  then have "world_ok (resizeCanvas iw ih w) = world_ok w"
    by (intro world_ok_cong) (simp_all add: resizeCanvas_def)
  then show ?thesis using assms Resize by (simp add: resizeCanvas_def)
qed

lemma clicks_Cons: "clicks (e # es) = clicks [e] + clicks es"
  by (cases e) simp_all

lemma run_ok:
  "world_ok w \<Longrightarrow> \<exists>w'. run es w = Inr w' \<and> world_ok w' \<and>
           length (snakes w') = length (snakes w) + clicks es \<and>
           length (atoms w') = length (atoms w) \<and> portals w' = portals w"
proof (induction es arbitrary: w)
  case Nil
  then show ?case by simp
next
  case (Cons e es)
  from step_ok[OF Cons.prems, of e] obtain w1 where
    s: "step e w = Inr w1" "world_ok w1" "length (snakes w1) = length (snakes w) + clicks [e]"
      "length (atoms w1) = length (atoms w)" "portals w1 = portals w"
    by blast
  from Cons.IH[OF s(2)] obtain w' where
    r: "run es w1 = Inr w'" "world_ok w'" "length (snakes w') = length (snakes w1) + clicks es"
      "length (atoms w') = length (atoms w1)" "portals w' = portals w1"
    by blast
  show ?case using s r clicks_Cons[of e es] by simp
qed

lemma start_ok:
  "\<exists>w. start iw ih r c es = Inr w \<and> world_ok w \<and> length (snakes w) = NUM_SNAKES + clicks es \<and>
       length (atoms w) = NUM_ATOMS \<and> length (portals w) = NUM_PORTALS \<and> ring (portals w)"
proof -
  have "next_id (loaded r c) = 0" by (simp add: loaded_def)
  from init_ok[OF this, of iw ih] obtain out w0 where
    i: "init iw ih (loaded r c) = Inr (out, w0)" "world_ok w0" "length (snakes w0) = NUM_SNAKES"
      "length (atoms w0) = NUM_ATOMS" "length (portals w0) = NUM_PORTALS" "ring (portals w0)"
    by blast
  from run_ok[OF i(2), of es] obtain w where
    "run es w0 = Inr w" "world_ok w" "length (snakes w) = length (snakes w0) + clicks es"
      "length (atoms w) = length (atoms w0)" "portals w = portals w0"
    by blast
  then show ?thesis using i by (simp add: start_def)
qed

lemma replicate_num: "replicate (numeral k) v = v # replicate (pred_numeral k) v"
  by (simp add: numeral_eq_Suc)

lemmas eval_defs = Snake_update_def Snake_steer_def Snake_newHead_def Snake_unshift_def
  Snake_shrink_def shrink_loop_take hit_hole_def Snake_portal_def eat_def forEach_in_def
  target_alive_def random_def performance_now_def Let_def SPEED_def SNAKE_SIZE_def js_rem_def
  hypot_less_iff three_portals_def gone_atom_def replicate_num

lemmas frame_defs = animate_def photon_pass_def frame_hole_def frame_atom_def frame_snake_def
  frame_photon_def frame_portal_def BlackHole_update_def Atom_draw_def

lemma world_ok_hole_world: "world_ok hole_world"
  by (simp add: world_ok_def portals_ok_def snake_ok_def counted_def emitted_def holes_due_def
      photons_ok_def hole_world_def three_portals_def gone_atom_def fresh_snake_def)

lemma sum_holes_due:
  "sum_list (map holes_due as) = length (filter (\<lambda>a. a_type a = Special \<and> a_state a \<noteq> 0) as)"
  by (induction as) (simp_all add: holes_due_def)

lemma length_filter_conj_le: "length (filter (\<lambda>a. P a \<and> Q a) as) \<le> length (filter P as)"
  by (induction as) simp_all

text \<open>
  Claim C1, as the script has it. The floor of 10 is on \<^verbatim>\<open>snakeLength\<close>, the length the
  snake is cut back to, not on the positions: \<^verbatim>\<open>shrink\<close> pops up to 10 positions as long as
  there are any. Whatever the window, the random numbers, the clock and the events, the run
  goes on without an exception, and after it every snake has \<^verbatim>\<open>snakeLength\<close> at least 10 and
  at least one position.
\<close>

theorem snake_lengths:
  "\<exists>w. start iw ih r c es = Inr w \<and>
       list_all (\<lambda>s. 10 \<le> s_snakeLength s \<and> 1 \<le> length (s_positions s)) (snakes w) \<and>
       length (snakes w) = NUM_SNAKES + clicks es"
proof -
  from start_ok[of iw ih r c es] obtain w where
    w: "start iw ih r c es = Inr w" "world_ok w" "length (snakes w) = NUM_SNAKES + clicks es"
    by blast
  have "list_all snake_ok (snakes w)" using w(2) by (simp add: world_ok_def)
  then have "list_all (\<lambda>s. 10 \<le> s_snakeLength s \<and> 1 \<le> length (s_positions s)) (snakes w)"
    by (rule list.pred_mono_strong) (auto simp: snake_ok_def Suc_le_eq)
  then show ?thesis using w by blast
qed

theorem snake_lengths_witness:
  "\<exists>w. start 800 600 (\<lambda>n. 1 / 2) (\<lambda>n. 0) [Frame, Click 10 20, Frame] = Inr w \<and>
       list_all (\<lambda>s. 10 \<le> s_snakeLength s \<and> 1 \<le> length (s_positions s)) (snakes w) \<and>
       length (snakes w) = 6"
  using snake_lengths [of 800 600 "\<lambda>n. 1 / 2" "\<lambda>n. 0" "[Frame, Click 10 20, Frame]"]
  by (simp add: NUM_SNAKES_def)

text \<open>
  Claim C1 as stated fails: in \<open>hole_world\<close> the snake starts with 40 positions and stays
  within reach of the black hole; each of four frames pops 10 positions and pushes one head,
  and after the fourth the snake has one position, with \<^verbatim>\<open>snakeLength\<close> 10.
\<close>

theorem snake_below_ten_counterexample:
  "world_ok hole_world \<and>
   \<not> isl (run [Frame, Frame, Frame, Frame] hole_world) \<and>
   map (length \<circ> s_positions) (snakes (projr (run [Frame, Frame, Frame, Frame] hole_world))) = [1] \<and>
   map s_snakeLength (snakes (projr (run [Frame, Frame, Frame, Frame] hole_world))) = [10] \<and>
   map (length \<circ> s_positions) (snakes hole_world) = [40]"
proof -
  have "\<not> isl (run [Frame, Frame, Frame, Frame] hole_world) \<and>
   map (length \<circ> s_positions) (snakes (projr (run [Frame, Frame, Frame, Frame] hole_world))) = [1] \<and>
   map s_snakeLength (snakes (projr (run [Frame, Frame, Frame, Frame] hole_world))) = [10] \<and>
   map (length \<circ> s_positions) (snakes hole_world) = [40]"
    by (simp add: eval_defs frame_defs fresh_snake_def hole_world_def)
  with world_ok_hole_world show ?thesis by simp
qed

text \<open>
  One \<^verbatim>\<open>update\<close> of the snake \<open>fresh_snake\<close> in \<open>pass_world\<close>, part by part: no atom is alive,
  there is no black hole, and the portals are far away.
\<close>

lemma Snake_steer_fresh: "Snake_steer fresh_snake \<lparr>px = 90, py = 100\<rparr> pass_world =
    (fresh_snake, pass_world\<lparr>rnd_calls := 1\<rparr>)"
  by (simp add: Snake_steer_def fresh_snake_def pass_world_def target_alive_def spent_atom_def
      random_def Let_def)

lemma Snake_newHead_fresh: "Snake_newHead fresh_snake \<lparr>px = 90, py = 100\<rparr> (pass_world\<lparr>rnd_calls := 1\<rparr>)
    = \<lparr>px = 92, py = 100\<rparr>"
  by (simp add: Snake_newHead_def fresh_snake_def pass_world_def SPEED_def js_rem_def Let_def)

lemma eat_loop_fresh: "forEach_in (\<lambda>sw. atoms (snd sw)) (eat \<lparr>px = 92, py = 100\<rparr>)
     (fresh_snake, pass_world\<lparr>rnd_calls := 1\<rparr>) = Inr (fresh_snake, pass_world\<lparr>rnd_calls := 1\<rparr>)"
  by (simp add: forEach_in_def eat_def pass_world_def spent_atom_def)

lemma hole_loop_fresh: "forEach (hit_hole \<lparr>px = 92, py = 100\<rparr>) (blackHoles (pass_world\<lparr>rnd_calls := 1\<rparr>))
     fresh_snake = Inr fresh_snake"
  by (simp add: pass_world_def)

lemma portal_loop_fresh: "forEach (Snake_portal (portals (pass_world\<lparr>rnd_calls := 1\<rparr>)))
     (portals (pass_world\<lparr>rnd_calls := 1\<rparr>)) (\<lparr>px = 92, py = 100\<rparr>, pass_world\<lparr>rnd_calls := 1\<rparr>)
     = Inr (\<lparr>px = 92, py = 100\<rparr>, pass_world\<lparr>rnd_calls := 1\<rparr>)"
  by (simp add: pass_world_def three_portals_def Snake_portal_def hypot_less_iff SNAKE_SIZE_def
      Let_def)

text \<open>
  Claim C9. The constructor makes 40 positions; \<^verbatim>\<open>shrink\<close> pops 10 positions, or as many as
  there are; an \<^verbatim>\<open>update\<close> of a snake with no position throws, on reading the head. The end
  of \<^verbatim>\<open>update\<close> puts exactly one new head in front of the positions and then pops at most one
  position from the tail, only when there are more than \<^verbatim>\<open>snakeLength\<close>; with \<^verbatim>\<open>snakeLength\<close>
  at least 1 the new head is the first position afterwards. An \<^verbatim>\<open>update\<close> whose loops
  complete returns the snake that the atom and black hole loops leave, with the head that the
  portal loop leaves put in front of it in that way. Whatever the window, the random numbers,
  the clock and the events, the run goes on without an exception, so no \<^verbatim>\<open>update\<close> in it
  has read a head that was not there; and in the world it leaves, every snake has a head, and
  its next \<^verbatim>\<open>update\<close> completes and leaves it with at least one position.
\<close>

theorem head_always_there:
  "length (s_positions (fst (new_Snake w0))) = 40 \<and>
   length (s_positions (Snake_shrink s)) = length (s_positions s) - 10 \<and>
   (s_positions s = [] \<longrightarrow> Snake_update s w1 = Inl TypeError) \<and>
   s_positions (Snake_unshift h u) =
      (if int (length (h # s_positions u)) > s_snakeLength u
       then butlast (h # s_positions u) else h # s_positions u) \<and>
   length (s_positions (Snake_unshift h u)) =
      (if int (length (s_positions u)) < s_snakeLength u
       then length (s_positions u) + 1 else length (s_positions u)) \<and>
   (1 \<le> s_snakeLength u \<longrightarrow> hd (s_positions (Snake_unshift h u)) = h) \<and>
   (s_positions this = head # rest \<and>
    Snake_steer this head w2 = (s2, w3) \<and>
    forEach_in (\<lambda>sw. atoms (snd sw)) (eat (Snake_newHead s2 head w3)) (s2, w3) = Inr (s3, w4) \<and>
    forEach (hit_hole (Snake_newHead s2 head w3)) (blackHoles w4) s3 = Inr s4 \<and>
    forEach (Snake_portal (portals w4)) (portals w4) (Snake_newHead s2 head w3, w4)
      = Inr (newHead, w5) \<longrightarrow>
    Snake_update this w2 =
      Inr (s4\<lparr>s_positions :=
                (if int (length (newHead # s_positions s4)) > s_snakeLength s4
                 then butlast (newHead # s_positions s4) else newHead # s_positions s4)\<rparr>, w5)) \<and>
   (\<exists>w. start iw ih r c es = Inr w \<and>
        (\<forall>k < length (snakes w).
           s_positions (snakes w ! k) \<noteq> [] \<and>
           (\<exists>s' w'. Snake_update (snakes w ! k) w = Inr (s', w') \<and>
                    1 \<le> length (s_positions s'))))"
proof -
  from start_ok[of iw ih r c es] obtain w where
    w: "start iw ih r c es = Inr w" "world_ok w"
    by blast
  have run: "\<forall>k < length (snakes w).
           s_positions (snakes w ! k) \<noteq> [] \<and>
           (\<exists>s' w'. Snake_update (snakes w ! k) w = Inr (s', w') \<and>
                    1 \<le> length (s_positions s'))"
  proof (intro allI impI)
    fix k
    assume "k < length (snakes w)"
    then have ok: "snake_ok (snakes w ! k)"
      using world_okD(2)[OF w(2)] by (simp add: list_all_length)
    from Snake_update_ok[OF ok world_okD(1)[OF w(2)] world_okD(3)[OF w(2)] world_okD(4)[OF w(2)]]
    obtain s' w' where
      "Snake_update (snakes w ! k) w = Inr (s', w')" "snake_ok s'"
      by blast
    then show "s_positions (snakes w ! k) \<noteq> [] \<and>
           (\<exists>s' w'. Snake_update (snakes w ! k) w = Inr (s', w') \<and>
                    1 \<le> length (s_positions s'))"
      using ok by (auto simp: snake_ok_def Suc_le_eq)
  qed
  have c1: "length (s_positions (fst (new_Snake w0))) = 40"
    by (simp add: new_Snake_def random_def case_prod_beta Let_def SNAKE_LENGTH_def)
  have c2: "length (s_positions (Snake_shrink s)) = length (s_positions s) - 10"
    by (simp add: Snake_shrink_def shrink_loop_take)
  have c3: "s_positions s = [] \<longrightarrow> Snake_update s w1 = Inl TypeError"
    by (simp add: Snake_update_def)
  have c4: "s_positions (Snake_unshift h u) =
      (if int (length (h # s_positions u)) > s_snakeLength u
       then butlast (h # s_positions u) else h # s_positions u)"
    by (simp add: Snake_unshift_def Let_def)
  have c5: "length (s_positions (Snake_unshift h u)) =
      (if int (length (s_positions u)) < s_snakeLength u
       then length (s_positions u) + 1 else length (s_positions u))"
    by (auto simp: Snake_unshift_def Let_def)
  have c6: "1 \<le> s_snakeLength u \<longrightarrow> hd (s_positions (Snake_unshift h u)) = h"
    by (cases "s_positions u") (auto simp: Snake_unshift_def Let_def)
  have c7: "s_positions this = head # rest \<and>
    Snake_steer this head w2 = (s2, w3) \<and>
    forEach_in (\<lambda>sw. atoms (snd sw)) (eat (Snake_newHead s2 head w3)) (s2, w3) = Inr (s3, w4) \<and>
    forEach (hit_hole (Snake_newHead s2 head w3)) (blackHoles w4) s3 = Inr s4 \<and>
    forEach (Snake_portal (portals w4)) (portals w4) (Snake_newHead s2 head w3, w4)
      = Inr (newHead, w5) \<longrightarrow>
    Snake_update this w2 =
      Inr (s4\<lparr>s_positions :=
                (if int (length (newHead # s_positions s4)) > s_snakeLength s4
                 then butlast (newHead # s_positions s4) else newHead # s_positions s4)\<rparr>, w5)"
    by (simp add: Snake_update_def Snake_unshift_def Let_def)
  have c8: "\<exists>w. start iw ih r c es = Inr w \<and>
        (\<forall>k < length (snakes w).
           s_positions (snakes w ! k) \<noteq> [] \<and>
           (\<exists>s' w'. Snake_update (snakes w ! k) w = Inr (s', w') \<and>
                    1 \<le> length (s_positions s')))"
    using w(1) run by blast
  from c1 c2 c3 c4 c5 c6 c7 c8 show ?thesis by (intro conjI)
qed

theorem head_always_there_witness:
  "s_positions (fresh_snake\<lparr>s_positions := []\<rparr>) = [] \<and>
   Snake_update (fresh_snake\<lparr>s_positions := []\<rparr>) hole_world = Inl TypeError \<and>
   s_positions fresh_snake = \<lparr>px = 90, py = 100\<rparr> # replicate 39 \<lparr>px = 90, py = 100\<rparr> \<and>
   Snake_steer fresh_snake \<lparr>px = 90, py = 100\<rparr> pass_world =
     (fresh_snake, pass_world\<lparr>rnd_calls := 1\<rparr>) \<and>
   Snake_newHead fresh_snake \<lparr>px = 90, py = 100\<rparr> (pass_world\<lparr>rnd_calls := 1\<rparr>) =
     \<lparr>px = 92, py = 100\<rparr> \<and>
   Snake_update fresh_snake pass_world =
     Inr (fresh_snake\<lparr>s_positions := \<lparr>px = 92, py = 100\<rparr> # replicate 39 \<lparr>px = 90, py = 100\<rparr>\<rparr>,
          pass_world\<lparr>rnd_calls := 1\<rparr>) \<and>
   (1::int) \<le> s_snakeLength fresh_snake \<and>
   hd (s_positions (Snake_unshift \<lparr>px = 92, py = 100\<rparr> fresh_snake)) = \<lparr>px = 92, py = 100\<rparr> \<and>
   length (s_positions (Snake_unshift \<lparr>px = 92, py = 100\<rparr> fresh_snake)) = 40 \<and>
   (\<exists>w. start 800 600 (\<lambda>n. 1 / 2) (\<lambda>n. 0) [Frame, Click 10 20, Frame] = Inr w \<and>
       length (snakes w) = 6 \<and>
       s_positions (snakes w ! 5) \<noteq> [] \<and>
       (\<exists>s' w'. Snake_update (snakes w ! 5) w = Inr (s', w') \<and> 1 \<le> length (s_positions s')))"
proof -
  note h = head_always_there [where ?w0.0 = "loaded (\<lambda>n. 0) (\<lambda>n. 0)"
      and s = "fresh_snake\<lparr>s_positions := []\<rparr>" and ?w1.0 = hole_world
      and h = "\<lparr>px = 92, py = 100\<rparr>" and u = fresh_snake
      and this = fresh_snake and head = "\<lparr>px = 90, py = 100\<rparr>"
      and rest = "replicate 39 \<lparr>px = 90, py = 100\<rparr>" and ?w2.0 = pass_world
      and ?s2.0 = fresh_snake and ?w3.0 = "pass_world\<lparr>rnd_calls := 1\<rparr>"
      and ?s3.0 = fresh_snake and ?w4.0 = "pass_world\<lparr>rnd_calls := 1\<rparr>"
      and ?s4.0 = fresh_snake and newHead = "\<lparr>px = 92, py = 100\<rparr>"
      and ?w5.0 = "pass_world\<lparr>rnd_calls := 1\<rparr>"
      and iw = 800 and ih = 600 and r = "\<lambda>n. 1 / 2" and c = "\<lambda>n. 0"
      and es = "[Frame, Click 10 20, Frame]"]
  have pos: "s_positions fresh_snake = \<lparr>px = 90, py = 100\<rparr> # replicate 39 \<lparr>px = 90, py = 100\<rparr>"
    by (simp add: fresh_snake_def replicate_num)
  have len: "(1::int) \<le> s_snakeLength fresh_snake" by (simp add: fresh_snake_def)
  have e0: "s_positions (fresh_snake\<lparr>s_positions := []\<rparr>) = []" by simp
  from h e0 have t: "Snake_update (fresh_snake\<lparr>s_positions := []\<rparr>) hole_world = Inl TypeError"
    by blast
  from h pos Snake_steer_fresh Snake_newHead_fresh eat_loop_fresh hole_loop_fresh portal_loop_fresh
  have u: "Snake_update fresh_snake pass_world =
     Inr (fresh_snake\<lparr>s_positions := \<lparr>px = 92, py = 100\<rparr> # replicate 39 \<lparr>px = 90, py = 100\<rparr>\<rparr>,
          pass_world\<lparr>rnd_calls := 1\<rparr>)"
    by (simp add: fresh_snake_def replicate_num)
  from h len have hd: "hd (s_positions (Snake_unshift \<lparr>px = 92, py = 100\<rparr> fresh_snake))
      = \<lparr>px = 92, py = 100\<rparr>"
    by blast
  from h have l: "length (s_positions (Snake_unshift \<lparr>px = 92, py = 100\<rparr> fresh_snake)) = 40"
    by (simp add: fresh_snake_def)
  from h obtain w where w: "start 800 600 (\<lambda>n. 1 / 2) (\<lambda>n. 0) [Frame, Click 10 20, Frame] = Inr w"
    "\<forall>k < length (snakes w).
           s_positions (snakes w ! k) \<noteq> [] \<and>
           (\<exists>s' w'. Snake_update (snakes w ! k) w = Inr (s', w') \<and>
                    1 \<le> length (s_positions s'))"
    by blast
  from start_ok[of 800 600 "\<lambda>n. 1 / 2" "\<lambda>n. 0" "[Frame, Click 10 20, Frame]"] w(1)
  have n: "length (snakes w) = 6" by (auto simp: NUM_SNAKES_def)
  then have "5 < length (snakes w)" by simp
  with w(2) have "s_positions (snakes w ! 5) \<noteq> [] \<and>
       (\<exists>s' w'. Snake_update (snakes w ! 5) w = Inr (s', w') \<and> 1 \<le> length (s_positions s'))"
    by blast
  then have r: "\<exists>w. start 800 600 (\<lambda>n. 1 / 2) (\<lambda>n. 0) [Frame, Click 10 20, Frame] = Inr w \<and>
       length (snakes w) = 6 \<and>
       s_positions (snakes w ! 5) \<noteq> [] \<and>
       (\<exists>s' w'. Snake_update (snakes w ! 5) w = Inr (s', w') \<and> 1 \<le> length (s_positions s'))"
    using w(1) n by blast
  from e0 t pos Snake_steer_fresh Snake_newHead_fresh u len hd l r show ?thesis by (intro conjI)
qed

text \<open>
  Claim C10. The atom loop of \<^verbatim>\<open>Snake.update\<close> leaves an atom that is not alive alone, and
  \<^verbatim>\<open>disintegrate\<close> leaves the atom in state 1. Over the whole run each atom that is no
  longer alive has emitted its photons once: the photons ever made are 5 for each such normal
  atom and 15 for each such special atom. The black holes are as many as the special atoms
  no longer alive, so never more than the special atoms.
\<close>

theorem atoms_disintegrate_once:
  "(a_state atom \<noteq> 0 \<longrightarrow> eat newHead atom k (s, w0) = Inr (s, w0)) \<and>
   a_state (fst (Atom_disintegrate t atom w0)) = 1 \<and>
   (\<exists>w. start iw ih r c es = Inr w \<and>
        next_id w = sum_list (map emitted (atoms w)) \<and>
        length (blackHoles w) =
          length (filter (\<lambda>a. a_type a = Special \<and> a_state a \<noteq> 0) (atoms w)) \<and>
        length (blackHoles w) \<le> length (filter (\<lambda>a. a_type a = Special) (atoms w)))"
proof -
  from start_ok[of iw ih r c es] obtain w where
    w: "start iw ih r c es = Inr w" "world_ok w"
    by blast
  have c: "counted w" using w(2) by (simp add: world_ok_def)
  have b: "length (blackHoles w) =
          length (filter (\<lambda>a. a_type a = Special \<and> a_state a \<noteq> 0) (atoms w))"
    using c by (simp add: counted_def sum_holes_due)
  have "length (blackHoles w) \<le> length (filter (\<lambda>a. a_type a = Special) (atoms w))"
    unfolding b by (rule length_filter_conj_le)
  moreover have "next_id w = sum_list (map emitted (atoms w))"
    using c by (simp add: counted_def)
  moreover have "a_state atom \<noteq> 0 \<longrightarrow> eat newHead atom k (s, w0) = Inr (s, w0)"
    by (simp add: eat_def)
  moreover have "a_state (fst (Atom_disintegrate t atom w0)) = 1"
    by (simp add: Atom_disintegrate_world)
  ultimately show ?thesis using w(1) b by blast
qed

theorem atoms_disintegrate_once_witness:
  "a_state gone_atom \<noteq> 0 \<and>
   eat \<lparr>px = 100, py = 100\<rparr> gone_atom 0 (fresh_snake, hole_world) = Inr (fresh_snake, hole_world) \<and>
   (\<exists>w. start 800 600 (\<lambda>n. 1 / 2) (\<lambda>n. 0) [Frame, Click 10 20, Frame] = Inr w \<and>
        next_id w = sum_list (map emitted (atoms w)) \<and>
        length (blackHoles w) \<le> length (filter (\<lambda>a. a_type a = Special) (atoms w)))"
proof -
  have g: "a_state gone_atom \<noteq> 0" by (simp add: gone_atom_def)
  from atoms_disintegrate_once [of gone_atom "\<lparr>px = 100, py = 100\<rparr>" 0 fresh_snake hole_world
      0 800 600 "\<lambda>n. 1 / 2" "\<lambda>n. 0" "[Frame, Click 10 20, Frame]"] g
  show ?thesis by blast
qed

text \<open>
  Claim C8. Take a photon of \<^verbatim>\<open>photons\<close>, where the photons are distinct objects with the
  constructor's cap of 100 and every portal has its partner. Its \<^verbatim>\<open>update\<close> completes and adds
  one to its life. After it the photon is gone from \<^verbatim>\<open>photons\<close> exactly when its life now
  exceeds 100 or its position, after the move, lies outside \<open>[0, width] \<times> [0, height]\<close>;
  otherwise it is still there, with its new fields. The other photons stay, in their order.
  Every world a run leaves is such a world.
\<close>

theorem Photon_update_life_and_removal:
  "(distinct (map p_id (photons w)) \<and> this \<in> set (photons w) \<and> p_maxLife this = 100 \<and>
    portals_ok (portals w) \<longrightarrow>
      (\<exists>p' w'. Photon_update this w = Inr (p', w') \<and>
         p_life p' = p_life this + 1 \<and>
         (p_id this \<notin> p_id ` set (photons w') \<longleftrightarrow>
            p_life p' > 100 \<or>
            px (p_position p') < 0 \<or> px (p_position p') > width w \<or>
            py (p_position p') < 0 \<or> py (p_position p') > height w) \<and>
         (p_id this \<in> p_id ` set (photons w') \<longrightarrow> p' \<in> set (photons w')) \<and>
         map p_id (filter (\<lambda>q. p_id q \<noteq> p_id this) (photons w')) =
           map p_id (filter (\<lambda>q. p_id q \<noteq> p_id this) (photons w)))) \<and>
   (\<exists>w1. start iw ih r c es = Inr w1 \<and> distinct (map p_id (photons w1)) \<and>
         list_all (\<lambda>p. p_maxLife p = 100) (photons w1) \<and> portals_ok (portals w1))"
proof (intro conjI impI)
  assume a: "distinct (map p_id (photons w)) \<and> this \<in> set (photons w) \<and> p_maxLife this = 100 \<and>
    portals_ok (portals w)"
  then have po: "portals_ok (portals w)" and d: "distinct (map p_id (photons w))"
    and m: "p_id this \<in> p_id ` set (photons w)" and cap: "p_maxLife this = 100"
    by auto
  from Photon_update_ok[OF po, of this] obtain p' w' where
    u: "Photon_update this w = Inr (p', w')" by blast
  from Photon_update_removal[OF u d m cap] u
  show "\<exists>p' w'. Photon_update this w = Inr (p', w') \<and>
         p_life p' = p_life this + 1 \<and>
         (p_id this \<notin> p_id ` set (photons w') \<longleftrightarrow>
            p_life p' > 100 \<or>
            px (p_position p') < 0 \<or> px (p_position p') > width w \<or>
            py (p_position p') < 0 \<or> py (p_position p') > height w) \<and>
         (p_id this \<in> p_id ` set (photons w') \<longrightarrow> p' \<in> set (photons w')) \<and>
         map p_id (filter (\<lambda>q. p_id q \<noteq> p_id this) (photons w')) =
           map p_id (filter (\<lambda>q. p_id q \<noteq> p_id this) (photons w))"
    by blast
next
  from start_ok[of iw ih r c es] obtain w1 where
    w1: "start iw ih r c es = Inr w1" "world_ok w1"
    by blast
  have "photons_ok w1" "portals_ok (portals w1)" using world_okD[OF w1(2)] by simp_all
  then show "\<exists>w1. start iw ih r c es = Inr w1 \<and> distinct (map p_id (photons w1)) \<and>
         list_all (\<lambda>p. p_maxLife p = 100) (photons w1) \<and> portals_ok (portals w1)"
    using w1(1) by (auto simp: photons_ok_def)
qed

theorem Photon_update_life_and_removal_witness:
  "distinct (map p_id (photons pass_world)) \<and>
   old_photon \<in> set (photons pass_world) \<and> young_photon \<in> set (photons pass_world) \<and>
   p_maxLife old_photon = 100 \<and> p_maxLife young_photon = 100 \<and>
   portals_ok (portals pass_world) \<and>
   Photon_update old_photon pass_world =
     Inr (old_photon\<lparr>p_position := \<lparr>px = 101, py = 100\<rparr>,
                     p_velocity := \<lparr>px = 1, py = 0.05\<rparr>, p_life := 101\<rparr>,
          pass_world\<lparr>photons := [young_photon]\<rparr>) \<and>
   p_id old_photon \<notin> p_id ` set (photons (pass_world\<lparr>photons := [young_photon]\<rparr>)) \<and>
   p_id young_photon \<in> p_id ` set (photons (pass_world\<lparr>photons :=
      [old_photon, young_photon\<lparr>p_position := \<lparr>px = 201, py = 100\<rparr>,
                     p_velocity := \<lparr>px = 1, py = 0.05\<rparr>, p_life := 8\<rparr>]\<rparr>))"
proof -
  have d: "distinct (map p_id (photons pass_world))"
    by (simp add: pass_world_def old_photon_def young_photon_def)
  have m1: "old_photon \<in> set (photons pass_world)"
    by (simp add: pass_world_def)
  have m2: "young_photon \<in> set (photons pass_world)"
    by (simp add: pass_world_def)
  have c1: "p_maxLife old_photon = 100" by (simp add: old_photon_def)
  have c2: "p_maxLife young_photon = 100" by (simp add: young_photon_def)
  have po: "portals_ok (portals pass_world)"
    by (simp add: pass_world_def portals_ok_def three_portals_def)
  note t1 = Photon_update_life_and_removal [of pass_world old_photon 800 600 "\<lambda>n. 1 / 2"
      "\<lambda>n. 0" "[Frame]"]
  note t2 = Photon_update_life_and_removal [of pass_world young_photon 800 600 "\<lambda>n. 1 / 2"
      "\<lambda>n. 0" "[Frame]"]
  from t1 d m1 c1 po have
    "p_id old_photon \<notin> p_id ` set (photons (pass_world\<lparr>photons := [young_photon]\<rparr>))"
    by (simp add: Photon_update_old)
  moreover from t2 d m2 c2 po have
    "p_id young_photon \<in> p_id ` set (photons (pass_world\<lparr>photons :=
      [old_photon, young_photon\<lparr>p_position := \<lparr>px = 201, py = 100\<rparr>,
                     p_velocity := \<lparr>px = 1, py = 0.05\<rparr>, p_life := 8\<rparr>]\<rparr>))"
    by (simp add: Photon_update_young)
  ultimately show ?thesis using d m1 m2 c1 c2 po Photon_update_old by simp
qed

text \<open>
  Claim C6. After the partner loop of \<^verbatim>\<open>init\<close>, on whatever portals, the portal at index
  \<open>i\<close> has the portal at index \<open>(i + 1) mod n\<close> as its one partner, \<open>n\<close> being the number of
  portals; following the partner link \<open>n\<close> times from any portal leads back to it; and with
  more than one portal, no portal is its own partner. So it is for the three portals of
  every world a run leaves.
\<close>

theorem portal_ring:
  "(i < length ps \<longrightarrow>
      length (assign_partners 0 ps) = length ps \<and>
      q_partner (assign_partners 0 ps ! i) = Some ((i + 1) mod length ps) \<and>
      follow (length ps) (assign_partners 0 ps) i = Some i \<and>
      (1 < length ps \<longrightarrow> q_partner (assign_partners 0 ps ! i) \<noteq> Some i)) \<and>
   (\<exists>w. start iw ih r c es = Inr w \<and> length (portals w) = NUM_PORTALS \<and>
        (\<forall>j < NUM_PORTALS.
           q_partner (portals w ! j) = Some ((j + 1) mod NUM_PORTALS) \<and>
           follow NUM_PORTALS (portals w) j = Some j \<and>
           q_partner (portals w ! j) \<noteq> Some j))"
proof (rule conjI)
  show "i < length ps \<longrightarrow>
      length (assign_partners 0 ps) = length ps \<and>
      q_partner (assign_partners 0 ps ! i) = Some ((i + 1) mod length ps) \<and>
      follow (length ps) (assign_partners 0 ps) i = Some i \<and>
      (1 < length ps \<longrightarrow> q_partner (assign_partners 0 ps ! i) \<noteq> Some i)"
    by (intro impI) (rule assign_partners_ring)
next
  from start_ok[of iw ih r c es] obtain w where
    w: "start iw ih r c es = Inr w" "length (portals w) = NUM_PORTALS" "ring (portals w)"
    by blast
  have "\<forall>j < NUM_PORTALS.
           q_partner (portals w ! j) = Some ((j + 1) mod NUM_PORTALS) \<and>
           follow NUM_PORTALS (portals w) j = Some j \<and>
           q_partner (portals w ! j) \<noteq> Some j"
  proof (intro allI impI)
    fix j
    assume j: "j < NUM_PORTALS"
    then have jl: "j < length (portals w)" using w(2) by simp
    have p: "q_partner (portals w ! j) = Some ((j + 1) mod NUM_PORTALS)"
      using w(3) jl w(2) by (simp add: ring_def)
    have f: "follow NUM_PORTALS (portals w) j = Some j"
      using follow_ring[OF w(3) jl, of NUM_PORTALS] w(2) j by simp
    have "(j + 1) mod NUM_PORTALS \<noteq> j"
      using j by (auto simp: NUM_PORTALS_def mod_Suc)
    then show "q_partner (portals w ! j) = Some ((j + 1) mod NUM_PORTALS) \<and>
           follow NUM_PORTALS (portals w) j = Some j \<and>
           q_partner (portals w ! j) \<noteq> Some j"
      using p f by simp
  qed
  then show "\<exists>w. start iw ih r c es = Inr w \<and> length (portals w) = NUM_PORTALS \<and>
        (\<forall>j < NUM_PORTALS.
           q_partner (portals w ! j) = Some ((j + 1) mod NUM_PORTALS) \<and>
           follow NUM_PORTALS (portals w) j = Some j \<and>
           q_partner (portals w ! j) \<noteq> Some j)"
    using w(1,2) by blast
qed

theorem portal_ring_witness:
  "(2::nat) < length [new_Portal 10 10, new_Portal 200 50, new_Portal 400 300] \<and>
   q_partner (assign_partners 0 [new_Portal 10 10, new_Portal 200 50, new_Portal 400 300] ! 2)
     = Some 0 \<and>
   follow 3 (assign_partners 0 [new_Portal 10 10, new_Portal 200 50, new_Portal 400 300]) 2
     = Some 2 \<and>
   (\<exists>w. start 800 600 (\<lambda>n. 1 / 2) (\<lambda>n. 0) [Frame, Click 10 20, Frame] = Inr w \<and>
        length (portals w) = 3 \<and>
        q_partner (portals w ! 2) = Some 0 \<and> follow 3 (portals w) 2 = Some 2)"
proof -
  note t = portal_ring [of 2 "[new_Portal 10 10, new_Portal 200 50, new_Portal 400 300]"
      800 600 "\<lambda>n. 1 / 2" "\<lambda>n. 0" "[Frame, Click 10 20, Frame]"]
  from t obtain w where w:
    "start 800 600 (\<lambda>n. 1 / 2) (\<lambda>n. 0) [Frame, Click 10 20, Frame] = Inr w"
    "length (portals w) = NUM_PORTALS"
    "\<forall>j < NUM_PORTALS.
           q_partner (portals w ! j) = Some ((j + 1) mod NUM_PORTALS) \<and>
           follow NUM_PORTALS (portals w) j = Some j \<and>
           q_partner (portals w ! j) \<noteq> Some j"
    by blast
  have "(2::nat) < NUM_PORTALS" by (simp add: NUM_PORTALS_def)
  with w(3) have "q_partner (portals w ! 2) = Some ((2 + 1) mod NUM_PORTALS) \<and>
           follow NUM_PORTALS (portals w) 2 = Some 2"
    by blast
  then have "q_partner (portals w ! 2) = Some 0 \<and> follow 3 (portals w) 2 = Some 2"
    by (simp add: NUM_PORTALS_def)
  moreover have "length (portals w) = 3" using w(2) by (simp add: NUM_PORTALS_def)
  ultimately have "\<exists>w. start 800 600 (\<lambda>n. 1 / 2) (\<lambda>n. 0) [Frame, Click 10 20, Frame] = Inr w \<and>
        length (portals w) = 3 \<and>
        q_partner (portals w ! 2) = Some 0 \<and> follow 3 (portals w) 2 = Some 2"
    using w(1) by blast
  then show ?thesis using t by (simp add: numeral_3_eq_3 del: follow.simps)
qed

end
